(* ===== verification/NP_Prelude.thy ===== *)
theory NP_Prelude
  imports
    Main
    "HOL-Library.Char_ord"
    "HOL-Library.List_Lexorder"
    "HOL-Library.Sublist"
    "HOL-Library.Log_Nat"
begin

text \<open>
  Shared vocabulary of the development: bytes and C strings as \<open>char list\<close>, the functions of
  the C library the daemon relies on (character classes of the "C" locale, \<open>strcmp\<close>,
  \<open>snprintf\<close>, \<open>strtol\<close>, \<open>fgets\<close>, the \<open>sscanf\<close> directives), decimal printing, and the
  conversions between the C integer and floating types.

  A C string is the list of its bytes without the terminating NUL. A byte sequence that may hold
  a NUL (a file, a pipe, an MQTT payload) becomes a C string by \<open>c_str\<close>, which cuts at the
  first NUL as every reader of a \<open>char *\<close> does.
\<close>

named_theorems c_classes \<open>facts about the character classes of the C locale\<close>
named_theorems c_bounds \<open>lengths of C strings after a bounded copy\<close>


section \<open>Bytes and character classes\<close>

abbreviation NUL :: char where "NUL \<equiv> CHR 0x00"
abbreviation NL :: char where "NL \<equiv> CHR 0x0A"

definition isdigit :: "char \<Rightarrow> bool" where
  "isdigit c = (c \<in> set ''0123456789'')"

definition isxdigit :: "char \<Rightarrow> bool" where
  "isxdigit c = (c \<in> set ''0123456789abcdefABCDEF'')"

definition isspace :: "char \<Rightarrow> bool" where
  "isspace c = (c \<in> {CHR '' '', CHR 0x09, CHR 0x0A, CHR 0x0B, CHR 0x0C, CHR 0x0D})"

definition tolower :: "char \<Rightarrow> char" where
  "tolower c = (let n = (of_char c :: nat) in
     if 65 \<le> n \<and> n \<le> 90 then char_of (n + 32) else c)"

definition lower_hex :: "char \<Rightarrow> bool" where
  "lower_hex c = (c \<in> set ''0123456789abcdef'')"

lemma lower_hex_isxdigit [c_classes]: "lower_hex c \<Longrightarrow> isxdigit c"
  by (auto simp: lower_hex_def isxdigit_def)

text \<open>A byte that \<open>tolower\<close> changes is one of the 26 capitals.\<close>

lemma tolower_capital: "tolower c \<noteq> c \<Longrightarrow> c \<in> set (List.map char_of [65..<(91::nat)])"
proof -
  assume "tolower c \<noteq> c"
  then have "65 \<le> (of_char c :: nat) \<and> (of_char c :: nat) \<le> 90"
    by (auto simp: tolower_def Let_def split: if_splits)
  then have "(of_char c :: nat) \<in> set [65..<91]"
    unfolding set_upt atLeastLessThan_iff by linarith
  moreover have "c = char_of (of_char c :: nat)" by simp
  ultimately show ?thesis unfolding set_map by (rule rev_image_eqI)
qed

lemma hex_table:
  "list_all (\<lambda>c. lower_hex (tolower c)) ''0123456789abcdefABCDEF''"
  "list_all (\<lambda>c. tolower c = c) ''0123456789abcdef''"
  by code_simp+

lemma lower_hex_tolower [c_classes]: "isxdigit c \<Longrightarrow> lower_hex (tolower c)"
  using hex_table(1) unfolding list_all_iff isxdigit_def by blast

lemma tolower_lower_hex [c_classes]: "lower_hex c \<Longrightarrow> tolower c = c"
  using hex_table(2) unfolding list_all_iff lower_hex_def by blast

lemma isxdigit_not_space [c_classes]: "isxdigit c \<Longrightarrow> \<not> isspace c"
  by (auto simp: isxdigit_def isspace_def)

lemma isxdigit_not_colon [c_classes]: "isxdigit c \<Longrightarrow> c \<noteq> CHR '':''"
  by (auto simp: isxdigit_def)

lemma isxdigit_not_sep [c_classes]: "isxdigit c \<Longrightarrow> c \<noteq> CHR '':'' \<and> c \<noteq> CHR ''-''"
  by (auto simp: isxdigit_def)

lemma isdigit_not_space [c_classes]: "isdigit c \<Longrightarrow> \<not> isspace c"
  by (auto simp: isdigit_def isspace_def)

lemma char_literals [simp]:
  "isxdigit (CHR '':'') = False" "isspace (CHR '':'') = False"
  "isxdigit (CHR ''-'') = False" "isspace (CHR ''-'') = False"
  "isspace NUL = False" "isxdigit NUL = False" "isspace NL = True"
  "isspace (CHR '' '') = True" "isdigit (CHR '' '') = False"
  "isdigit (CHR ''-'') = False" "isdigit (CHR ''+'') = False" "isspace (CHR ''+'') = False"
  "lower_hex (CHR ''0'') = True"
  by (simp_all add: isxdigit_def isspace_def isdigit_def lower_hex_def)

lemma lower_hex_literals [simp]:
  "lower_hex NUL = False" "lower_hex (CHR '':'') = False" "lower_hex (CHR ''-'') = False"
  by (simp_all add: lower_hex_def)

lemma lower_hex_not_NUL: "lower_hex c \<Longrightarrow> c \<noteq> NUL"
  by (auto simp: lower_hex_def)


section \<open>C strings\<close>

definition c_str :: "string \<Rightarrow> string" where
  "c_str bs = takeWhile (\<lambda>c. c \<noteq> NUL) bs"

definition nul_free :: "string \<Rightarrow> bool" where
  "nul_free s = (NUL \<notin> set s)"

lemma nul_free_c_str [simp]: "nul_free (c_str bs)"
  by (auto simp: nul_free_def c_str_def dest: set_takeWhileD)

lemma c_str_nul_free: "nul_free s \<Longrightarrow> c_str s = s"
  by (auto simp: nul_free_def c_str_def takeWhile_eq_all_conv)

text \<open>\<open>strcmp\<close> compares as unsigned bytes; callers only look at the sign.\<close>

fun strcmp :: "string \<Rightarrow> string \<Rightarrow> int" where
  "strcmp [] [] = 0"
| "strcmp [] (b # bs) = -1"
| "strcmp (a # as) [] = 1"
| "strcmp (a # as) (b # bs) = (if a = b then strcmp as bs else if a < b then -1 else 1)"

definition strncmp :: "string \<Rightarrow> string \<Rightarrow> nat \<Rightarrow> int" where
  "strncmp a b n = strcmp (take n a) (take n b)"

definition strcasecmp :: "string \<Rightarrow> string \<Rightarrow> int" where
  "strcasecmp a b = strcmp (List.map tolower a) (List.map tolower b)"

lemma strcmp_eq_0 [simp]: "strcmp a b = 0 \<longleftrightarrow> a = b"
  by (induction a b rule: strcmp.induct) auto

lemma strcmp_less_0: "strcmp a b < 0 \<longleftrightarrow> a < b"
  by (induction a b rule: strcmp.induct) (auto simp: not_less)

lemma strcmp_greater_0: "0 < strcmp a b \<longleftrightarrow> b < a"
  by (induction a b rule: strcmp.induct) (auto simp: not_less)

text \<open>
  The \<open>printf\<close> family: each conversion of the format (two bytes, \<open>%s\<close> or
  \<open>%d\<close>) takes the next argument, given as text. \<open>snprintf(buf, n, ...)\<close> keeps at
  most \<open>n - 1\<close> bytes and returns the full length.
\<close>

fun format :: "string \<Rightarrow> string list \<Rightarrow> string" where
  "format [] args = []"
| "format [c] args = [c]"
| "format (c # d # cs) args =
     (if c = CHR ''%'' then (case args of [] \<Rightarrow> format cs [] | a # as \<Rightarrow> a @ format cs as)
      else c # format (d # cs) args)"

declare format.simps [simp del]

definition snprintf :: "nat \<Rightarrow> string \<Rightarrow> string list \<Rightarrow> string" where
  "snprintf n fmt args = take (n - 1) (format fmt args)"

lemma snprintf_fits: "length (format fmt args) < n \<Longrightarrow> snprintf n fmt args = format fmt args"
  by (simp add: snprintf_def)

lemma length_snprintf [c_bounds]: "length (snprintf n fmt args) \<le> n - 1"
  by (simp add: snprintf_def)

text \<open>\<open>strncpy(dst, s, n)\<close> into a zeroed buffer of more than \<open>n\<close> bytes.\<close>

definition strncpy :: "nat \<Rightarrow> string \<Rightarrow> string" where
  "strncpy n s = take n s"

lemma length_strncpy [c_bounds]: "length (strncpy n s) \<le> n"
  by (simp add: strncpy_def)


section \<open>Integers: printing, parsing, conversions\<close>

definition digit_char :: "nat \<Rightarrow> char" where
  "digit_char d = char_of (48 + d)"

fun show_nat :: "nat \<Rightarrow> string" where
  "show_nat n = (if n < 10 then [digit_char n] else show_nat (n div 10) @ [digit_char (n mod 10)])"

declare show_nat.simps [simp del]

text \<open>\<open>%d\<close> and \<open>%ld\<close>.\<close>

definition show_int :: "int \<Rightarrow> string" where
  "show_int i = (if i < 0 then CHR ''-'' # show_nat (nat (- i)) else show_nat (nat i))"

definition digit_val :: "char \<Rightarrow> nat" where
  "digit_val c = of_char c - 48"

definition digits_val :: "string \<Rightarrow> nat" where
  "digits_val ds = foldl (\<lambda>a c. 10 * a + digit_val c) 0 ds"

lemma digit_table:
  "list_all (\<lambda>d. isdigit (digit_char d) \<and> digit_val (digit_char d) = d) [0..<10]"
  by code_simp

lemma digit_char_cases: "d < 10 \<Longrightarrow> isdigit (digit_char d) \<and> digit_val (digit_char d) = d"
  using digit_table unfolding list_all_iff by simp

lemma show_nat_digits: "list_all isdigit (show_nat n)"
proof (induction n rule: show_nat.induct)
  case (1 n)
  then show ?case
    by (cases "n < 10") (subst show_nat.simps, simp add: digit_char_cases)+
qed

lemma show_nat_nonempty [simp]: "show_nat n \<noteq> []"
  by (subst show_nat.simps) simp

lemma digits_val_show_nat: "digits_val (show_nat n) = n"
proof (induction n rule: show_nat.induct)
  case (1 n)
  show ?case
  proof (cases "n < 10")
    case True
    then show ?thesis by (subst show_nat.simps) (simp add: digits_val_def digit_char_cases)
  next
    case False
    then have "digits_val (show_nat n) = 10 * digits_val (show_nat (n div 10)) + n mod 10"
      by (subst show_nat.simps) (simp add: digits_val_def digit_char_cases)
    with False 1 show ?thesis by simp
  qed
qed

text \<open>The limits of \<open>long\<close> on the LP64 target (aarch64, x86_64).\<close>

definition LONG_MAX :: int where "LONG_MAX = 2 ^ 63 - 1"
definition LONG_MIN :: int where "LONG_MIN = - (2 ^ 63)"

definition clamp_long :: "int \<Rightarrow> int" where
  "clamp_long i = (if i > LONG_MAX then LONG_MAX else if i < LONG_MIN then LONG_MIN else i)"

definition is_long :: "int \<Rightarrow> bool" where
  "is_long i = (LONG_MIN \<le> i \<and> i \<le> LONG_MAX)"

lemma is_long_clamp [simp]: "is_long (clamp_long i)"
  by (simp add: is_long_def clamp_long_def LONG_MAX_def LONG_MIN_def)

lemma clamp_long_id: "is_long i \<Longrightarrow> clamp_long i = i"
  by (simp add: is_long_def clamp_long_def)

text \<open>
  An optional sign and a run of digits, after white space: the value and what is left, \<open>None\<close>
  when there is no digit. Base 10, out-of-range values saturate (ERANGE).
\<close>

definition scan_sign :: "string \<Rightarrow> bool \<times> string" where
  "scan_sign s = (case s of
      [] \<Rightarrow> (False, [])
    | c # cs \<Rightarrow> if c = CHR ''-'' then (True, cs) else if c = CHR ''+'' then (False, cs)
               else (False, s))"

definition scan_long :: "string \<Rightarrow> (int \<times> string) option" where
  "scan_long s = (let (neg, r) = scan_sign (dropWhile isspace s);
                      ds = takeWhile isdigit r;
                      v = int (digits_val ds)
                  in if ds = [] then None
                     else Some (clamp_long (if neg then - v else v), dropWhile isdigit r))"

text \<open>\<open>strtol(s, NULL, 10)\<close>: 0 when nothing converts.\<close>

definition strtol :: "string \<Rightarrow> int" where
  "strtol s = (case scan_long s of None \<Rightarrow> 0 | Some (v, _) \<Rightarrow> v)"

text \<open>The conversion \<open>(int)\<close> of a \<open>long\<close>: reduction modulo 2 to the 32, two's complement.\<close>

definition int_cast :: "int \<Rightarrow> int" where
  "int_cast x = (x + 2 ^ 31) mod 2 ^ 32 - 2 ^ 31"

definition is_int32 :: "int \<Rightarrow> bool" where
  "is_int32 x = (- (2 ^ 31) \<le> x \<and> x < 2 ^ 31)"

text \<open>The conversion of a wider integer to a 64-bit \<open>long\<close>.\<close>

definition long_cast :: "int \<Rightarrow> int" where
  "long_cast x = (x + 2 ^ 63) mod 2 ^ 64 - 2 ^ 63"

lemma is_long_cast [simp]: "is_long (long_cast x)"
  by (simp add: is_long_def long_cast_def LONG_MIN_def LONG_MAX_def)

lemma long_cast_id: "is_long x \<Longrightarrow> long_cast x = x"
  by (simp add: is_long_def long_cast_def LONG_MIN_def LONG_MAX_def)

lemma is_int32_cast [simp]: "is_int32 (int_cast x)"
  by (simp add: is_int32_def int_cast_def)

lemma int_cast_id: "is_int32 x \<Longrightarrow> int_cast x = x"
  by (simp add: is_int32_def int_cast_def)

lemma takeWhile_digits_show: "\<not> isdigit (hd (r @ [NUL])) \<Longrightarrow>
    takeWhile isdigit (show_nat n @ r) = show_nat n \<and> dropWhile isdigit (show_nat n @ r) = r"
proof -
  assume "\<not> isdigit (hd (r @ [NUL]))"
  then have "takeWhile isdigit r = [] \<and> dropWhile isdigit r = r"
    by (cases r) auto
  then show ?thesis using show_nat_digits [of n]
    by (simp add: list_all_iff takeWhile_append2 dropWhile_append2)
qed

lemma hd_show_nat: "isdigit (hd (show_nat n @ r))"
  using show_nat_digits [of n] by (cases "show_nat n") auto

lemma digit_not_sign: "isdigit c \<Longrightarrow> c \<noteq> CHR ''-'' \<and> c \<noteq> CHR ''+'' \<and> \<not> isspace c"
  by (auto simp: isdigit_def isspace_def)

lemma scan_sign_show_nat: "scan_sign (dropWhile isspace (show_nat n @ r)) = (False, show_nat n @ r)"
proof -
  obtain c cs where c: "show_nat n = c # cs" by (cases "show_nat n") auto
  with hd_show_nat [of n "[]"] have "isdigit c" by simp
  from digit_not_sign [OF this] show ?thesis by (simp add: c scan_sign_def)
qed

lemma scan_long_show_clamp:
  assumes r: "\<not> isdigit (hd (r @ [NUL]))"
  shows "scan_long (show_int i @ r) = Some (clamp_long i, r)"
proof (cases "i < 0")
  case True
  with takeWhile_digits_show [OF r, of "nat (- i)"] show ?thesis
    by (simp add: scan_long_def show_int_def scan_sign_def digits_val_show_nat)
next
  case False
  with takeWhile_digits_show [OF r, of "nat i"] scan_sign_show_nat [of "nat i" r] show ?thesis
    by (simp add: scan_long_def show_int_def digits_val_show_nat)
qed

lemma scan_long_show: "is_long i \<Longrightarrow> \<not> isdigit (hd (r @ [NUL])) \<Longrightarrow> scan_long (show_int i @ r) = Some (i, r)"
  by (simp add: scan_long_show_clamp clamp_long_id)

lemma strtol_show_int: "strtol (show_int i) = clamp_long i"
  using scan_long_show_clamp [of "[]" i] by (simp add: strtol_def isdigit_def)

text \<open>\<open>%<w>s\<close>: skip white space, then one to \<open>w\<close> bytes that are not white space.\<close>

definition scan_word :: "nat \<Rightarrow> string \<Rightarrow> (string \<times> string) option" where
  "scan_word w s = (let r = dropWhile isspace s;
                        t = take w (takeWhile (\<lambda>c. \<not> isspace c) r)
                    in if t = [] then None else Some (t, drop (length t) r))"

lemma length_scan_word: "scan_word w s = Some (t, r) \<Longrightarrow> length t \<le> w"
  by (auto simp: scan_word_def Let_def split: if_splits)

lemma scan_word_token:
  assumes "t \<noteq> []" "\<not> list_ex isspace t" "length t \<le> w"
    and r: "length t = w \<or> isspace (hd (r @ [NL]))"
  shows "scan_word w (CHR '' '' # t @ r) = Some (t, r)"
proof -
  have d: "dropWhile isspace (CHR '' '' # t @ r) = t @ r"
    using assms(1,2) by (cases t) auto
  have ns: "\<forall>c \<in> set t. \<not> isspace c" using assms(2) by (simp add: list_ex_iff)
  have tk: "take w (takeWhile (\<lambda>c. \<not> isspace c) (t @ r)) = t"
  proof (cases "isspace (hd (r @ [NL]))")
    case True
    then have "takeWhile (\<lambda>c. \<not> isspace c) r = []" by (cases r) auto
    with ns assms(3) show ?thesis by (simp add: takeWhile_append2)
  next
    case False
    with r have "length t = w" by simp
    with ns show ?thesis by (simp add: takeWhile_append2)
  qed
  show ?thesis using assms(1)
    unfolding scan_word_def d Let_def tk by simp
qed

text \<open>
  The conversion \<open>(double)\<close> of a \<open>long\<close>: exact up to 53 significant bits, else rounded to the
  nearest representable value, ties to even.
\<close>

definition round_53 :: "nat \<Rightarrow> nat" where
  "round_53 n = (let k = nat (bitlen (int n)) - 53; q = n div 2 ^ k; r = n mod 2 ^ k; h = 2 ^ (k - 1)
                 in if k = 0 then n
                    else if r > h \<or> (r = h \<and> odd q) then (q + 1) * 2 ^ k else q * 2 ^ k)"

definition double_of_long :: "int \<Rightarrow> int" where
  "double_of_long x = (if x < 0 then - int (round_53 (nat (- x))) else int (round_53 (nat x)))"

lemma double_of_long_exact: "\<bar>x\<bar> < 2 ^ 53 \<Longrightarrow> double_of_long x = x"
proof -
  have *: "round_53 n = n" if "n < 2 ^ 53" for n
  proof -
    have "bitlen (int n) \<le> 53"
      using that by (simp add: bitlen_le_iff_power)
    then show ?thesis by (simp add: round_53_def)
  qed
  assume "\<bar>x\<bar> < 2 ^ 53"
  then show ?thesis by (auto simp: double_of_long_def * nat_less_iff)
qed


section \<open>Line input\<close>

text \<open>
  \<open>fgets(buf, n, fp)\<close> on the unread bytes \<open>s\<close> of the stream: the bytes stored and the bytes
  left, \<open>None\<close> at end of file. It stops after a newline or \<open>n - 1\<close> bytes; with \<open>n = 1\<close>
  it stores the empty string and reads nothing.
\<close>

definition fgets :: "nat \<Rightarrow> string \<Rightarrow> (string \<times> string) option" where
  "fgets n s = (if n \<le> 1 then Some ([], s)
     else if s = [] then None
     else let k = min (n - 1) (length (takeWhile (\<lambda>c. c \<noteq> NL) s) + 1) in Some (take k s, drop k s))"

lemma fgets_append: "fgets n s = Some (l, r) \<Longrightarrow> s = l @ r"
  by (auto simp: fgets_def Let_def split: if_splits)

lemma fgets_length: "fgets n s = Some (l, r) \<Longrightarrow> length l \<le> n - 1"
  by (auto simp: fgets_def Let_def split: if_splits)

lemma fgets_progress: "fgets n s = Some (l, r) \<Longrightarrow> n > 1 \<Longrightarrow> length r < length s"
  by (auto simp: fgets_def Let_def split: if_splits)

lemma fgets_none: "n > 1 \<Longrightarrow> fgets n s = None \<longleftrightarrow> s = []"
  by (simp add: fgets_def Let_def)

lemma c_str_empty_iff: "c_str l = [] \<longleftrightarrow> l = [] \<or> hd l = NUL"
  by (cases l) (auto simp: c_str_def)

end
