(* ===== verification/Effects.thy ===== *)
theory Effects
  imports
    Complex_Main
    NP_Prelude
    "HOL-Library.State_Monad"
begin

text \<open>
  The world the daemon runs in. Every interaction with something outside the C sources (the shell
  and the \<open>nft\<close> binary, the file system, the clock, libuci, cJSON, libmosquitto, the allocator,
  the loggers) is one \<open>call\<close>, and the global state records the calls made so far, oldest
  first. What the outside answers is a field of the environment record \<open>env\<close>: a function of
  the whole history of calls, the current one last. Nothing is assumed about these functions, so a
  theorem for all \<open>E :: env\<close> holds whatever the outside does; where a property needs documented
  behaviour of an outside component it states it as a hypothesis on \<open>E\<close>.

  The two remaining fields of the state are the globals of \<open>log.c\<close>. Operations run in the
  library's state monad, so a definition reads as the C function does.
\<close>

named_theorems emits_rules \<open>closure rules of the confinement predicate\<close>
named_theorems visible_simps \<open>what the observers of a trace see of a call\<close>


section \<open>Data exchanged with the outside\<close>

text \<open>The JSON trees exchanged with cJSON; an object lists its members in the order of insertion.\<close>

datatype json =
    JNull
  | JBool bool
  | JNum real
  | JStr string
  | JArr "json list"
  | JObj "(string \<times> json) list"

text \<open>\<open>cJSON_IsString\<close> and \<open>valuestring\<close>; \<open>cJSON_AddItemToObject\<close>.\<close>

fun json_string :: "json option \<Rightarrow> string option" where
  "json_string (Some (JStr s)) = Some s"
| "json_string _ = None"

text \<open>A UCI option is a string or a list; only strings are read.\<close>

datatype uci_option = Uci_string string | Uci_list "string list"

record uci_section =
  us_name :: string
  us_type :: string
  us_lookup :: "string \<Rightarrow> uci_option option"

text \<open>What \<open>mosquitto_loop\<close> calls back, in the order it does.\<close>

datatype mosq_event =
    Ev_connect int
  | Ev_disconnect int
  | Ev_message "(string option \<times> string) option"
  | Ev_log int string


section \<open>Calls, environment, global state\<close>

datatype call =
    Getopt "string list"
  | Signal_window
  | Sigaction
  | Uci_alloc_context
  | Uci_load string
  | Uci_unload
  | Uci_free_context
  | Popen_read string
  | Popen_write string string
  | System string
  | Fopen_read "string option"
  | Stat_file "string option"
  | Time_now
  | Strftime int
  | Openlog string
  | Closelog
  | Syslog int string
  | Stderr string
  | Malloc
  | Abort
  | Json_parse string
  | Json_print json
  | Mosq_lib_init
  | Mosq_new string bool
  | Mosq_connect_callback_set
  | Mosq_disconnect_callback_set
  | Mosq_message_callback_set
  | Mosq_log_callback_set
  | Mosq_username_pw_set string "string option"
  | Mosq_tls_set "string option" "string option" "string option"
  | Mosq_tls_insecure_set bool
  | Mosq_will_set string string int bool
  | Mosq_reconnect_delay_set int int bool
  | Mosq_connect_async string int int
  | Mosq_loop int
  | Mosq_reconnect_async
  | Mosq_disconnect
  | Mosq_subscribe string int
  | Mosq_publish string string int bool
  | Mosq_destroy
  | Mosq_lib_cleanup

type_synonym history = "call list"

text \<open>
  A path handed to \<open>fopen\<close> or \<open>stat\<close> may be NULL. The fields: \<open>e_getopt\<close> the options \<open>getopt\<close> returns; \<open>e_signal\<close> whether SIGINT or
  SIGTERM was delivered since the flag was last looked at; \<open>e_uci_alloc\<close>, \<open>e_uci_load\<close>
  libuci; \<open>e_popen\<close> the output and the \<open>pclose\<close> status of a command, \<open>None\<close> when
  \<open>popen\<close> fails; \<open>e_system\<close> the result of \<open>system\<close>; \<open>e_fopen\<close> the bytes of a
  file; \<open>e_stat\<close> modification time and size; \<open>e_time\<close> the clock; \<open>e_strftime\<close> local
  time as text; \<open>e_malloc\<close> whether an allocation succeeds; \<open>e_parse\<close>, \<open>e_print\<close>,
  \<open>e_get\<close> are \<open>cJSON_Parse\<close>, \<open>cJSON_PrintUnformatted\<close> and
  \<open>cJSON_GetObjectItemCaseSensitive\<close>; \<open>e_mosq_new\<close> whether \<open>mosquitto_new\<close>
  succeeds; \<open>e_mosq\<close> the result code of the other mosquitto calls; \<open>e_loop\<close> the
  callbacks made by \<open>mosquitto_loop\<close> and its result code; \<open>e_strerror\<close> and
  \<open>e_connack\<close> the library's texts for result codes.
\<close>

record env =
  e_getopt :: "history \<Rightarrow> string"
  e_signal :: "history \<Rightarrow> bool"
  e_uci_alloc :: "history \<Rightarrow> bool"
  e_uci_load :: "history \<Rightarrow> uci_section list option"
  e_popen :: "history \<Rightarrow> (string \<times> int) option"
  e_system :: "history \<Rightarrow> int"
  e_fopen :: "history \<Rightarrow> string option"
  e_stat :: "history \<Rightarrow> (int \<times> int) option"
  e_time :: "history \<Rightarrow> int"
  e_strftime :: "history \<Rightarrow> string"
  e_malloc :: "history \<Rightarrow> bool"
  e_parse :: "history \<Rightarrow> json option"
  e_print :: "history \<Rightarrow> string option"
  e_get :: "json \<Rightarrow> string \<Rightarrow> json option"
  e_mosq_new :: "history \<Rightarrow> bool"
  e_mosq :: "history \<Rightarrow> int"
  e_loop :: "history \<Rightarrow> mosq_event list \<times> int"
  e_strerror :: "int \<Rightarrow> string"
  e_connack :: "int \<Rightarrow> string"

record sys =
  sy_trace :: history
  g_use_syslog :: int
  g_level :: int

type_synonym 'a np = "(sys, 'a) state"

abbreviation ret :: "'a \<Rightarrow> 'a np" where "ret \<equiv> State_Monad.return"

definition ask :: "(history \<Rightarrow> 'a) \<Rightarrow> call \<Rightarrow> 'a np" where
  "ask f c = State (\<lambda>s. (f (sy_trace s @ [c]), s\<lparr>sy_trace := sy_trace s @ [c]\<rparr>))"

definition tell :: "call \<Rightarrow> unit np" where
  "tell c = ask (\<lambda>_. ()) c"

lemma run_ask [simp]:
  "run_state (ask f c) s = (f (sy_trace s @ [c]), s\<lparr>sy_trace := sy_trace s @ [c]\<rparr>)"
  by (simp add: ask_def)

lemma run_tell [simp]: "run_state (tell c) s = ((), s\<lparr>sy_trace := sy_trace s @ [c]\<rparr>)"
  by (simp add: tell_def)

text \<open>A loop over a list with an accumulator, as a callback iteration does.\<close>

fun fold_np :: "('a \<Rightarrow> 'u \<Rightarrow> 'u np) \<Rightarrow> 'a list \<Rightarrow> 'u \<Rightarrow> 'u np" where
  "fold_np f [] u = ret u"
| "fold_np f (x # xs) u = do { u' \<leftarrow> f x u; fold_np f xs u' }"

lemma fold_np_append: "fold_np f (xs @ ys) u = do { u' \<leftarrow> fold_np f xs u; fold_np f ys u' }"
proof (induction xs arbitrary: u)
  case Nil
  then show ?case by simp
next
  case (Cons x xs)
  then have "fold_np f (xs @ ys) = (\<lambda>u. do { u' \<leftarrow> fold_np f xs u; fold_np f ys u' })"
    by (rule ext)
  then show ?case by simp
qed

lemma fold_np_invariant:
  assumes "\<And>x u s. x \<in> set xs \<Longrightarrow> Q u \<Longrightarrow> Q (fst (run_state (f x u) s))" and "Q u"
  shows "Q (fst (run_state (fold_np f xs u) s))"
  using assms
proof (induction xs arbitrary: u s)
  case Nil
  then show ?case by simp
next
  case (Cons x xs)
  then show ?case by (auto simp: case_prod_beta)
qed


section \<open>Operations that may be killed\<close>

text \<open>
  \<open>abort\<close> ends the process: it is the last call of the history, and the operation has no value. An
  operation that may abort returns an option, \<open>None\<close> when the process is gone; \<open>then_np\<close>
  runs the rest of a function only in a process that is still there.
\<close>

definition abort_np :: "'a option np" where
  "abort_np = do { tell Abort; ret None }"

definition then_np :: "'a option np \<Rightarrow> ('a \<Rightarrow> 'b option np) \<Rightarrow> 'b option np" where
  "then_np m f = do { r \<leftarrow> m; case r of None \<Rightarrow> ret None | Some a \<Rightarrow> f a }"

text \<open>The statements of a function, each of which may abort, on the object they fill in.\<close>

fun in_turn :: "('c \<Rightarrow> 'c option np) list \<Rightarrow> 'c \<Rightarrow> 'c option np" where
  "in_turn [] c = ret (Some c)"
| "in_turn (f # fs) c = then_np (f c) (in_turn fs)"


section \<open>Confinement: what an operation may do to the world\<close>

text \<open>
  \<open>emits P m\<close>: running \<open>m\<close> only appends calls to the history, all of them satisfying
  \<open>P\<close>, and leaves the logging globals alone. It is closed under sequencing, branching and
  iteration, so it is proved of an operation by following its text.
\<close>

definition emits :: "(call \<Rightarrow> bool) \<Rightarrow> 'a np \<Rightarrow> bool" where
  "emits P m = (\<forall>s. \<exists>t. snd (run_state m s) = s\<lparr>sy_trace := sy_trace s @ t\<rparr> \<and> list_all P t)"

lemma emits_return [emits_rules]: "emits P (ret a)"
  by (auto simp: emits_def intro!: exI [of _ "[]"])

lemma emits_ask [emits_rules]: "P c \<Longrightarrow> emits P (ask f c)"
  by (auto simp: emits_def)

lemma emits_tell [emits_rules]: "P c \<Longrightarrow> emits P (tell c)"
  by (simp add: tell_def emits_ask)

lemma emits_get [emits_rules]: "emits P State_Monad.get"
  by (auto simp: emits_def intro!: exI [of _ "[]"])

lemma emits_bind [emits_rules]:
  assumes m: "emits P m" and f: "\<And>a. emits P (f a)"
  shows "emits P (do { a \<leftarrow> m; f a })"
  unfolding emits_def
proof
  fix s
  obtain a s1 where r: "run_state m s = (a, s1)" by (cases "run_state m s")
  with m obtain t where t: "s1 = s\<lparr>sy_trace := sy_trace s @ t\<rparr>" "list_all P t"
    unfolding emits_def by (metis snd_conv)
  from f [of a] obtain t' where "snd (run_state (f a) s1) = s1\<lparr>sy_trace := sy_trace s1 @ t'\<rparr>"
    and "list_all P t'"
    unfolding emits_def by blast
  with r t show "\<exists>t. snd (run_state (do { a \<leftarrow> m; f a }) s) = s\<lparr>sy_trace := sy_trace s @ t\<rparr>
      \<and> list_all P t"
    by (auto intro!: exI [of _ "t @ t'"])
qed

lemma emits_if [emits_rules]:
  "(b \<Longrightarrow> emits P m) \<Longrightarrow> (\<not> b \<Longrightarrow> emits P n) \<Longrightarrow> emits P (if b then m else n)"
  by simp

lemma emits_case_option [emits_rules]:
  "(x = None \<Longrightarrow> emits P m) \<Longrightarrow> (\<And>a. x = Some a \<Longrightarrow> emits P (f a))
   \<Longrightarrow> emits P (case x of None \<Rightarrow> m | Some a \<Rightarrow> f a)"
  by (cases x) simp_all

lemma emits_case_prod [emits_rules]:
  "(\<And>a b. x = (a, b) \<Longrightarrow> emits P (f a b)) \<Longrightarrow> emits P (case x of (a, b) \<Rightarrow> f a b)"
  by (cases x) simp

lemma emits_fold_np [emits_rules]:
  assumes "\<And>x u. x \<in> set xs \<Longrightarrow> emits P (f x u)"
  shows "emits P (fold_np f xs u)"
  using assms by (induction xs arbitrary: u) (simp_all add: emits_rules)

lemma emits_then_np [emits_rules]: "emits P m \<Longrightarrow> (\<And>a. emits P (f a)) \<Longrightarrow> emits P (then_np m f)"
  unfolding then_np_def by (intro emits_bind emits_case_option emits_return)

lemma emits_abort [emits_rules]: "P Abort \<Longrightarrow> emits P abort_np"
  unfolding abort_np_def by (intro emits_rules)

lemma emits_in_turn [emits_rules]:
  assumes "\<And>f c. f \<in> set fs \<Longrightarrow> emits P (f c)"
  shows "emits P (in_turn fs c)"
  using assms by (induction fs arbitrary: c) (simp_all add: emits_return emits_then_np)

lemma emits_mono: "emits P m \<Longrightarrow> (\<And>c. P c \<Longrightarrow> Q c) \<Longrightarrow> emits Q m"
  unfolding emits_def by (meson list.pred_mono_strong)

lemma emitsE:
  assumes "emits P m" and "run_state m s = (a, s')"
  obtains t where "s' = s\<lparr>sy_trace := sy_trace s @ t\<rparr>" "list_all P t"
  using assms unfolding emits_def by (metis snd_conv)

text \<open>The precise rule for a bind whose second part depends on the state the first one leaves.\<close>

lemma emits_bindS:
  assumes "emits P m" "\<And>s. emits P (f (fst (run_state m s)))"
  shows "emits P (do { a \<leftarrow> m; f a })"
  unfolding emits_def
proof
  fix s
  obtain a s1 where r: "run_state m s = (a, s1)" by force
  from emitsE [OF assms(1) r] obtain t where t: "s1 = s\<lparr>sy_trace := sy_trace s @ t\<rparr>" "list_all P t" by blast
  obtain b s2 where r2: "run_state (f a) s1 = (b, s2)" by force
  from emitsE [OF _ r2] assms(2) [of s] r obtain t' where "s2 = s1\<lparr>sy_trace := sy_trace s1 @ t'\<rparr>" "list_all P t'"
    by auto
  with r r2 t show "\<exists>t. snd (run_state (do { a \<leftarrow> m; f a }) s) = s\<lparr>sy_trace := sy_trace s @ t\<rparr> \<and> list_all P t"
    by (auto intro!: exI [of _ "t @ t'"])
qed

lemma emits_trace:
  assumes "emits P m"
  shows "\<exists>t. sy_trace (snd (run_state m s)) = sy_trace s @ t \<and> list_all P t"
proof -
  from assms obtain t where "snd (run_state m s) = s\<lparr>sy_trace := sy_trace s @ t\<rparr>" "list_all P t"
    unfolding emits_def by blast
  then show ?thesis by auto
qed

lemma emits_both: "emits P m \<Longrightarrow> emits Q m \<Longrightarrow> emits (\<lambda>c. P c \<and> Q c) m"
proof -
  assume P: "emits P m" and Q: "emits Q m"
  show ?thesis
    unfolding emits_def
  proof
    fix s
    from P obtain t where t: "snd (run_state m s) = s\<lparr>sy_trace := sy_trace s @ t\<rparr>" "list_all P t"
      unfolding emits_def by blast
    from Q obtain u where u: "snd (run_state m s) = s\<lparr>sy_trace := sy_trace s @ u\<rparr>" "list_all Q u"
      unfolding emits_def by blast
    from t(1) u(1) have "sy_trace s @ t = sy_trace s @ u" by (metis sys.select_convs(1) sys.surjective sys.update_convs(1))
    then have "t = u" by simp
    with t u show "\<exists>t. snd (run_state m s) = s\<lparr>sy_trace := sy_trace s @ t\<rparr>
        \<and> list_all (\<lambda>c. P c \<and> Q c) t"
      by (auto simp: list_all_iff intro!: exI [of _ t])
  qed
qed


section \<open>Observers\<close>

text \<open>
  Logging and reading the clock are left out of the visible trace; \<open>published\<close> lists the
  messages handed to the broker (topic, payload, QoS, retain flag), \<open>shell\<close> the command lines
  handed to the shell.
\<close>

fun is_log :: "call \<Rightarrow> bool" where
  "is_log Time_now = True"
| "is_log (Strftime _) = True"
| "is_log (Syslog _ _) = True"
| "is_log (Stderr _) = True"
| "is_log _ = False"

definition visible :: "history \<Rightarrow> history" where
  "visible t = filter (\<lambda>c. \<not> is_log c) t"

fun message_of :: "call \<Rightarrow> (string \<times> string \<times> int \<times> bool) list" where
  "message_of (Mosq_publish t p q r) = [(t, p, q, r)]"
| "message_of _ = []"

definition published :: "history \<Rightarrow> (string \<times> string \<times> int \<times> bool) list" where
  "published t = concat (List.map message_of t)"

fun shell_of :: "call \<Rightarrow> string list" where
  "shell_of (Popen_read c) = [c]"
| "shell_of (Popen_write c _) = [c]"
| "shell_of (System c) = [c]"
| "shell_of _ = []"

definition shell :: "history \<Rightarrow> string list" where
  "shell t = concat (List.map shell_of t)"

lemma visible_append [visible_simps]: "visible (s @ t) = visible s @ visible t"
  and visible_Nil [visible_simps]: "visible [] = []"
  and visible_Cons [visible_simps]: "visible (c # t) = (if is_log c then [] else [c]) @ visible t"
  by (simp_all add: visible_def)

lemma published_append [visible_simps]: "published (s @ t) = published s @ published t"
  and published_Nil [visible_simps]: "published [] = []"
  and published_Cons [visible_simps]: "published (c # t) = message_of c @ published t"
  by (simp_all add: published_def)

lemma shell_append [visible_simps]: "shell (s @ t) = shell s @ shell t"
  and shell_Nil [visible_simps]: "shell [] = []"
  and shell_Cons [visible_simps]: "shell (c # t) = shell_of c @ shell t"
  by (simp_all add: shell_def)

lemma is_log_shell: "is_log c \<Longrightarrow> shell_of c = []"
  by (cases c) simp_all

lemma is_log_abort: "is_log c \<Longrightarrow> c \<noteq> Abort"
  by (cases c) simp_all

lemma is_log_print: "is_log c \<Longrightarrow> c \<noteq> Json_print j"
  by (cases c) simp_all

lemma is_log_message: "is_log c \<Longrightarrow> message_of c = []"
  by (cases c) simp_all

lemma shell_of_visible: "shell (visible t) = shell t"
  by (induction t) (auto simp: visible_simps is_log_shell)

lemma published_of_visible: "published (visible t) = published t"
  by (induction t) (auto simp: visible_simps is_log_message)

lemma visible_all_log [visible_simps]: "list_all is_log t \<Longrightarrow> visible t = []"
  by (induction t) (auto simp: visible_simps)


section \<open>Abort on a failed allocation\<close>

text \<open>
  \<open>killed E h h'\<close>: between the histories \<open>h\<close> and \<open>h'\<close> an allocation failed and the
  process aborted, with nothing but log output in between. \<open>owns E m s x\<close>: run in \<open>s\<close>,
  \<open>m\<close> either yields \<open>x\<close> without aborting, or is killed in this way.
\<close>

definition killed :: "env \<Rightarrow> history \<Rightarrow> history \<Rightarrow> bool" where
  "killed E h h' \<longleftrightarrow> (\<exists>p q. h' = h @ p @ [Malloc] @ q @ [Abort] \<and> Abort \<notin> set p \<and>
     \<not> e_malloc E (h @ p @ [Malloc]) \<and> list_all is_log q)"

definition owns :: "env \<Rightarrow> 'a option np \<Rightarrow> sys \<Rightarrow> 'a \<Rightarrow> bool" where
  "owns E m s x \<longleftrightarrow> (case fst (run_state m s) of
      Some y \<Rightarrow> y = x \<and> (\<exists>t. sy_trace (snd (run_state m s)) = sy_trace s @ t \<and> Abort \<notin> set t)
    | None \<Rightarrow> killed E (sy_trace s) (sy_trace (snd (run_state m s))))"

lemma killed_later: "killed E (h @ t) h' \<Longrightarrow> Abort \<notin> set t \<Longrightarrow> killed E h h'"
  unfolding killed_def by (elim exE conjE) (rule exI [of _ "t @ p" for p], auto)

lemma owns_return: "owns E (ret (Some x)) s x"
  by (simp add: owns_def)

lemma owns_after:
  assumes "emits (\<lambda>c. c \<noteq> Abort) m" "owns E (f (fst (run_state m s))) (snd (run_state m s)) x"
  shows "owns E (do { a \<leftarrow> m; f a }) s x"
proof -
  obtain t where t: "sy_trace (snd (run_state m s)) = sy_trace s @ t" "Abort \<notin> set t"
    using emits_trace [OF assms(1), of s] by (auto simp: list_all_iff)
  from assms(2) t(2) show ?thesis
    by (auto simp: owns_def case_prod_beta t(1) split: option.splits intro: killed_later)
qed

lemma owns_then:
  assumes m: "owns E m s x" and f: "\<And>s. owns E (f x) s y"
  shows "owns E (then_np m f) s y"
proof (cases "fst (run_state m s)")
  case None
  with m show ?thesis by (simp add: owns_def then_np_def case_prod_beta)
next
  case (Some z)
  then obtain t where t: "sy_trace (snd (run_state m s)) = sy_trace s @ t" "Abort \<notin> set t" "z = x"
    using m by (auto simp: owns_def)
  with Some f [of "snd (run_state m s)"] show ?thesis
    by (auto simp: owns_def then_np_def case_prod_beta split: option.splits intro: killed_later)
qed

lemma owns_in_turn:
  assumes "list_all2 (\<lambda>f g. \<forall>c s. owns E (f c) s (g c)) fs gs"
  shows "owns E (in_turn fs c) s (fold (\<lambda>g. g) gs c)"
  using assms
proof (induction fs gs arbitrary: c s rule: list_all2_induct)
  case Nil
  then show ?case by (simp add: owns_return)
next
  case (Cons f fs g gs)
  then show ?case by (auto intro!: owns_then)
qed


section \<open>Start state and a concrete environment\<close>

text \<open>The globals of \<open>log.c\<close> before \<open>np_log_init\<close>: stderr, level INFO.\<close>

definition sys_start :: sys where
  "sys_start = \<lparr>sy_trace = [], g_use_syslog = 0, g_level = 2\<rparr>"

text \<open>
  An environment in which every call succeeds and nothing happens, used to apply theorems to concrete
  runs: no output, an empty lease file, no command on the broker, a signal at once.
\<close>

definition calm :: env where
  "calm = \<lparr>e_getopt = (\<lambda>_. []), e_signal = (\<lambda>_. True), e_uci_alloc = (\<lambda>_. True),
     e_uci_load = (\<lambda>_. None), e_popen = (\<lambda>_. Some ([], 0)), e_system = (\<lambda>_. 0),
     e_fopen = (\<lambda>_. Some []), e_stat = (\<lambda>_. Some (1, 0)), e_time = (\<lambda>_. 1700000000),
     e_strftime = (\<lambda>_. ''2023-11-14 22:13:20''), e_malloc = (\<lambda>_. True),
     e_parse = (\<lambda>_. Some (JObj [])), e_print = (\<lambda>_. Some ''{}''), e_get = (\<lambda>_ _. None),
     e_mosq_new = (\<lambda>_. True), e_mosq = (\<lambda>_. 0), e_loop = (\<lambda>_. ([], 0)),
     e_strerror = (\<lambda>_. []), e_connack = (\<lambda>_. [])\<rparr>"

end
