(* ===== verification/Log.thy ===== *)
theory Log
  imports Effects
begin

text \<open>
  The component \<open>src/src/log.c\<close>, \<open>src/src/log.h\<close>: levels, the two globals, the level
  filter and the two back ends (syslog and stderr). The levels are ordered by their C values.
\<close>

section \<open>Levels\<close>

datatype np_log_level = NP_LOG_ERR | NP_LOG_WARN | NP_LOG_INFO | NP_LOG_DBG

fun level_num :: "np_log_level \<Rightarrow> int" where
  "level_num NP_LOG_ERR = 0"
| "level_num NP_LOG_WARN = 1"
| "level_num NP_LOG_INFO = 2"
| "level_num NP_LOG_DBG = 3"

lemma level_num_inject: "level_num a = level_num b \<longleftrightarrow> a = b"
  by (cases a; cases b) simp_all

instantiation np_log_level :: linorder
begin

definition less_eq_np_log_level :: "np_log_level \<Rightarrow> np_log_level \<Rightarrow> bool" where
  "less_eq_np_log_level a b = (level_num a \<le> level_num b)"

definition less_np_log_level :: "np_log_level \<Rightarrow> np_log_level \<Rightarrow> bool" where
  "less_np_log_level a b = (level_num a < level_num b)"

instance
  by standard (auto simp: less_eq_np_log_level_def less_np_log_level_def level_num_inject)

end

text \<open>The priorities of \<open>syslog.h\<close>: LOG_ERR 3, LOG_WARNING 4, LOG_INFO 6, LOG_DEBUG 7.\<close>

fun to_syslog_prio :: "np_log_level \<Rightarrow> int" where
  "to_syslog_prio NP_LOG_ERR = 3"
| "to_syslog_prio NP_LOG_WARN = 4"
| "to_syslog_prio NP_LOG_INFO = 6"
| "to_syslog_prio NP_LOG_DBG = 7"

fun level_tag :: "np_log_level \<Rightarrow> string" where
  "level_tag NP_LOG_ERR = ''ERROR''"
| "level_tag NP_LOG_WARN = ''WARN ''"
| "level_tag NP_LOG_INFO = ''INFO ''"
| "level_tag NP_LOG_DBG = ''DEBUG''"


section \<open>Operations\<close>

text \<open>\<open>openlog\<close> is called with the options LOG_PID | LOG_CONS and the facility LOG_DAEMON.\<close>

definition np_log_init :: "string option \<Rightarrow> int \<Rightarrow> int \<Rightarrow> unit np" where
  "np_log_init ident use_syslog level = do {
     s \<leftarrow> State_Monad.get;
     State_Monad.set (s\<lparr>g_use_syslog := use_syslog, g_level := level\<rparr>);
     if use_syslog \<noteq> 0
     then tell (Openlog (case ident of Some i \<Rightarrow> i | None \<Rightarrow> ''netparent''))
     else ret ()
   }"

definition np_log_close :: "unit np" where
  "np_log_close = do {
     s \<leftarrow> State_Monad.get;
     if g_use_syslog s \<noteq> 0 then tell Closelog else ret ()
   }"

text \<open>The message is the formatted text. The stderr back end makes three writes.\<close>

definition np_log :: "env \<Rightarrow> np_log_level \<Rightarrow> string \<Rightarrow> unit np" where
  "np_log E level msg = do {
     s \<leftarrow> State_Monad.get;
     if level_num level > g_level s then ret ()
     else if g_use_syslog s \<noteq> 0 then tell (Syslog (to_syslog_prio level) msg)
     else do {
       t \<leftarrow> ask (e_time E) Time_now;
       ts \<leftarrow> ask (e_strftime E) (Strftime t);
       tell (Stderr (ts @ '' ['' @ level_tag level @ ''] ''));
       tell (Stderr msg);
       tell (Stderr [NL])
     }
   }"

definition LOG_ERR :: "env \<Rightarrow> string \<Rightarrow> string list \<Rightarrow> unit np" where
  "LOG_ERR E fmt args = np_log E NP_LOG_ERR (format fmt args)"

definition LOG_WARN :: "env \<Rightarrow> string \<Rightarrow> string list \<Rightarrow> unit np" where
  "LOG_WARN E fmt args = np_log E NP_LOG_WARN (format fmt args)"

definition LOG_INFO :: "env \<Rightarrow> string \<Rightarrow> string list \<Rightarrow> unit np" where
  "LOG_INFO E fmt args = np_log E NP_LOG_INFO (format fmt args)"

definition LOG_DBG :: "env \<Rightarrow> string \<Rightarrow> string list \<Rightarrow> unit np" where
  "LOG_DBG E fmt args = np_log E NP_LOG_DBG (format fmt args)"



section \<open>What logging does to the world\<close>

definition log_calls :: "env \<Rightarrow> np_log_level \<Rightarrow> string \<Rightarrow> sys \<Rightarrow> history" where
  "log_calls E level msg s = drop (length (sy_trace s)) (sy_trace (snd (run_state (np_log E level msg) s)))"

lemma emits_np_log [emits_rules]: "(\<And>c. is_log c \<Longrightarrow> P c) \<Longrightarrow> emits P (np_log E level msg)"
  unfolding np_log_def by (intro emits_rules) auto

lemma emits_LOG [emits_rules]:
  assumes "\<And>c. is_log c \<Longrightarrow> P c"
  shows "emits P (LOG_ERR E fmt args)" "emits P (LOG_WARN E fmt args)" "emits P (LOG_INFO E fmt args)"
    "emits P (LOG_DBG E fmt args)"
  using assms by (simp_all add: LOG_ERR_def LOG_WARN_def LOG_INFO_def LOG_DBG_def emits_np_log)

lemma run_np_log:
  "run_state (np_log E level msg) s = ((), s\<lparr>sy_trace := sy_trace s @ log_calls E level msg s\<rparr>)"
  "list_all is_log (log_calls E level msg s)"
proof -
  obtain s' where r: "run_state (np_log E level msg) s = ((), s')"
    by (cases "run_state (np_log E level msg) s") auto
  from emitsE [OF emits_np_log [of is_log] r] obtain t
    where "s' = s\<lparr>sy_trace := sy_trace s @ t\<rparr>" "list_all is_log t" by blast
  with r show "run_state (np_log E level msg) s = ((), s\<lparr>sy_trace := sy_trace s @ log_calls E level msg s\<rparr>)"
    "list_all is_log (log_calls E level msg s)"
    by (simp_all add: log_calls_def)
qed

lemma run_LOG [simp]:
  "run_state (LOG_ERR E fmt args) s =
     ((), s\<lparr>sy_trace := sy_trace s @ log_calls E NP_LOG_ERR (format fmt args) s\<rparr>)"
  "run_state (LOG_WARN E fmt args) s =
     ((), s\<lparr>sy_trace := sy_trace s @ log_calls E NP_LOG_WARN (format fmt args) s\<rparr>)"
  "run_state (LOG_INFO E fmt args) s =
     ((), s\<lparr>sy_trace := sy_trace s @ log_calls E NP_LOG_INFO (format fmt args) s\<rparr>)"
  "run_state (LOG_DBG E fmt args) s =
     ((), s\<lparr>sy_trace := sy_trace s @ log_calls E NP_LOG_DBG (format fmt args) s\<rparr>)"
  by (simp_all add: LOG_ERR_def LOG_WARN_def LOG_INFO_def LOG_DBG_def run_np_log)

lemma visible_log_calls [visible_simps]: "visible (log_calls E level msg s) = []"
  by (simp add: visible_all_log run_np_log)

lemma shell_log_calls [visible_simps]: "shell (log_calls E level msg s) = []"
  by (metis visible_log_calls shell_of_visible shell_Nil)

lemma published_log_calls [visible_simps]: "published (log_calls E level msg s) = []"
  by (metis visible_log_calls published_of_visible published_Nil)


section \<open>Properties\<close>

fun syslog_line :: "call \<Rightarrow> (int \<times> string) list" where
  "syslog_line (Syslog prio msg) = [(prio, msg)]"
| "syslog_line _ = []"

fun stderr_text :: "call \<Rightarrow> string" where
  "stderr_text (Stderr msg) = msg"
| "stderr_text _ = []"

text \<open>
  C40: the level filter and the two back ends. After \<open>np_log_init\<close> with the level \<open>limit\<close>, a message
  is written exactly when its level is at most \<open>limit\<close>, and to one place only: whole, as one line with time
  and tag on stderr, or as one record of its priority in the system log.
\<close>

theorem log_after_init:
  "let s1 = snd (run_state (np_log_init ident sl (level_num limit)) s); new = log_calls E level msg s1 in
     (new \<noteq> [] \<longleftrightarrow> level \<le> limit) \<and>
     concat (List.map syslog_line new) = (if level \<le> limit \<and> sl \<noteq> 0 then [(to_syslog_prio level, msg)] else []) \<and>
     (\<exists>ts. concat (List.map stderr_text new) =
        (if level \<le> limit \<and> sl = 0 then ts @ '' ['' @ level_tag level @ ''] '' @ msg @ [NL] else []))"
  by (auto simp: log_calls_def np_log_def np_log_init_def Let_def less_eq_np_log_level_def)

end
