(* ===== verification/Config.thy ===== *)
theory Config
  imports Log
begin

text \<open>
  The component \<open>src/src/config.c\<close>, \<open>src/src/config.h\<close>: the configuration record, the
  typed readers of UCI options, the defaults and the loader with its ways out. libuci answers
  through the environment: the sections of the package, each with its option lookup. A string owned
  by the configuration is \<open>Some\<close>, the NULL pointer \<open>None\<close>; \<open>xstrdup\<close> copies it or aborts
  the process when memory runs out, so loading may have no result. The section \<open>Reference\<close> states the loaded
  configuration as a function of the data, and the lemmas on \<open>owns\<close> that the loader computes it or is
  killed by a failed allocation.
\<close>

section \<open>The configuration\<close>

record np_config =
  device_id :: "string option"
  broker_host :: "string option"
  broker_port :: int
  keepalive :: int
  tls_enabled :: bool
  tls_ca_file :: "string option"
  tls_cert_file :: "string option"
  tls_key_file :: "string option"
  tls_insecure :: bool
  username :: "string option"
  password :: "string option"
  nft_table :: "string option"
  nft_set :: "string option"
  log_level :: int
  log_syslog :: bool

text \<open>\<open>memset(cfg, 0, sizeof *cfg)\<close>, which is also what \<open>np_config_free\<close> leaves behind.\<close>

definition config_zero :: np_config where
  "config_zero = \<lparr>device_id = None, broker_host = None, broker_port = 0, keepalive = 0,
     tls_enabled = False, tls_ca_file = None, tls_cert_file = None, tls_key_file = None,
     tls_insecure = False, username = None, password = None, nft_table = None, nft_set = None,
     log_level = 0, log_syslog = False\<rparr>"

definition np_config_free :: "np_config option \<Rightarrow> np_config option" where
  "np_config_free cfg = (case cfg of None \<Rightarrow> None | Some _ \<Rightarrow> Some config_zero)"

text \<open>A string field where the code passes it on as \<open>%s\<close>.\<close>

definition str :: "string option \<Rightarrow> string" where
  "str p = (case p of Some s \<Rightarrow> s | None \<Rightarrow> ''(null)'')"


section \<open>Reading options\<close>

definition uci_get :: "uci_section \<Rightarrow> string \<Rightarrow> string option" where
  "uci_get s name = (case us_lookup s name of Some (Uci_string v) \<Rightarrow> Some v | _ \<Rightarrow> None)"

definition uci_get_int :: "uci_section \<Rightarrow> string \<Rightarrow> int \<Rightarrow> int" where
  "uci_get_int s name defval = (case uci_get s name of
      None \<Rightarrow> defval
    | Some v \<Rightarrow> if v = [] then defval else int_cast (strtol v))"

definition uci_get_bool :: "uci_section \<Rightarrow> string \<Rightarrow> bool \<Rightarrow> bool" where
  "uci_get_bool s name defval = (case uci_get s name of
      None \<Rightarrow> defval
    | Some v \<Rightarrow>
        if v = [] then defval
        else if strcmp v ''1'' = 0 \<or> strcasecmp v ''true'' = 0 \<or> strcasecmp v ''yes'' = 0
             \<or> strcasecmp v ''on'' = 0 then True
        else if strcmp v ''0'' = 0 \<or> strcasecmp v ''false'' = 0 \<or> strcasecmp v ''no'' = 0
             \<or> strcasecmp v ''off'' = 0 then False
        else defval)"

text \<open>
  The copy of a string, \<open>abort\<close> when memory runs out, and the assignment of a string field, given by
  its update function; what the field owned before is freed.
\<close>

definition xstrdup :: "env \<Rightarrow> string option \<Rightarrow> string option option np" where
  "xstrdup E s = (case s of
      None \<Rightarrow> ret (Some None)
    | Some v \<Rightarrow> do {
        r \<leftarrow> ask (e_malloc E) Malloc;
        if \<not> r then do { LOG_ERR E ''out of memory'' []; abort_np } else ret (Some (Some v)) })"

type_synonym str_field = "(string option \<Rightarrow> string option) \<Rightarrow> np_config \<Rightarrow> np_config"

definition set_str :: "env \<Rightarrow> str_field \<Rightarrow> string option \<Rightarrow> np_config \<Rightarrow> np_config option np" where
  "set_str E dst src cfg = then_np (xstrdup E src) (\<lambda>p. ret (Some (dst (\<lambda>_. p) cfg)))"

text \<open>A guarded assignment of a string, and an assignment that allocates nothing.\<close>

abbreviation set_str_if :: "env \<Rightarrow> bool \<Rightarrow> str_field \<Rightarrow> string \<Rightarrow> np_config \<Rightarrow> np_config option np" where
  "set_str_if E b dst src cfg \<equiv> (if b then set_str E dst (Some src) cfg else ret (Some cfg))"

abbreviation assign :: "(np_config \<Rightarrow> np_config) \<Rightarrow> np_config \<Rightarrow> np_config option np" where
  "assign f cfg \<equiv> ret (Some (f cfg))"

definition apply_defaults :: "env \<Rightarrow> np_config \<Rightarrow> np_config option np" where
  "apply_defaults E = in_turn [
     \<lambda>c. set_str_if E (device_id c = None) device_id_update ''router-1'' c,
     \<lambda>c. set_str_if E (broker_host c = None) broker_host_update ''127.0.0.1'' c,
     assign (\<lambda>c. if broker_port c \<le> 0
                 then c\<lparr>broker_port := (if tls_enabled c then 8883 else 1883)\<rparr> else c),
     assign (\<lambda>c. if keepalive c \<le> 0 then c\<lparr>keepalive := 30\<rparr> else c),
     \<lambda>c. set_str_if E (nft_table c = None) nft_table_update ''inet netparent'' c,
     \<lambda>c. set_str_if E (nft_set c = None) nft_set_update ''blocked_macs'' c,
     assign (\<lambda>c. if log_level c < 0 then c\<lparr>log_level := level_num NP_LOG_INFO\<rparr> else c)]"


section \<open>Loading\<close>

text \<open>The first section whose name or type is \<open>main\<close>.\<close>

fun find_main :: "uci_section list \<Rightarrow> uci_section option" where
  "find_main [] = None"
| "find_main (s # ss) =
     (if strcmp (us_name s) ''main'' = 0 \<or> strcmp (us_type s) ''main'' = 0 then Some s
      else find_main ss)"

definition config_initial :: np_config where
  "config_initial = config_zero\<lparr>tls_enabled := True, log_syslog := True, log_level := -1\<rparr>"

definition read_section :: "env \<Rightarrow> uci_section \<Rightarrow> np_config \<Rightarrow> np_config option np" where
  "read_section E sec = in_turn [
     set_str E device_id_update (uci_get sec ''device_id''),
     set_str E broker_host_update (uci_get sec ''broker_host''),
     assign (\<lambda>c. c\<lparr>broker_port := uci_get_int sec ''broker_port'' 0\<rparr>),
     assign (\<lambda>c. c\<lparr>keepalive := uci_get_int sec ''keepalive'' 0\<rparr>),
     assign (\<lambda>c. c\<lparr>tls_enabled := uci_get_bool sec ''tls_enabled'' True\<rparr>),
     set_str E tls_ca_file_update (uci_get sec ''tls_ca_file''),
     set_str E tls_cert_file_update (uci_get sec ''tls_cert_file''),
     set_str E tls_key_file_update (uci_get sec ''tls_key_file''),
     assign (\<lambda>c. c\<lparr>tls_insecure := uci_get_bool sec ''tls_insecure'' False\<rparr>),
     set_str E username_update (uci_get sec ''username''),
     set_str E password_update (uci_get sec ''password''),
     set_str E nft_table_update (uci_get sec ''nft_table''),
     set_str E nft_set_update (uci_get sec ''nft_set''),
     assign (\<lambda>c. c\<lparr>log_level := uci_get_int sec ''log_level'' (-1)\<rparr>),
     assign (\<lambda>c. c\<lparr>log_syslog := uci_get_bool sec ''log_syslog'' True\<rparr>)]"

text \<open>The result code and the configuration; \<open>None\<close> when the process aborted.\<close>

definition np_config_load :: "env \<Rightarrow> (int \<times> np_config) option np" where
  "np_config_load E = do {
     ctx \<leftarrow> ask (e_uci_alloc E) Uci_alloc_context;
     if \<not> ctx
     then do { LOG_ERR E ''uci_alloc_context failed'' []; ret (Some (-1, config_initial)) }
     else do {
       pkg \<leftarrow> ask (e_uci_load E) (Uci_load ''netparent'');
       case pkg of
         None \<Rightarrow> do {
           LOG_WARN E ''UCI package '%s' not found; using defaults'' [''netparent''];
           tell Uci_free_context;
           then_np (apply_defaults E config_initial) (\<lambda>cfg. ret (Some (0, cfg))) }
       | Some sections \<Rightarrow> (case find_main sections of
           None \<Rightarrow> do {
             LOG_WARN E ''UCI section '%s.%s' not found; using defaults'' [''netparent'', ''main''];
             tell Uci_unload;
             tell Uci_free_context;
             then_np (apply_defaults E config_initial) (\<lambda>cfg. ret (Some (0, cfg))) }
         | Some sec \<Rightarrow> then_np (read_section E sec config_initial) (\<lambda>cfg. do {
             tell Uci_unload;
             tell Uci_free_context;
             then_np (apply_defaults E cfg) (\<lambda>cfg.
               if tls_enabled cfg \<and> tls_ca_file cfg = None
               then do { LOG_ERR E ''tls_enabled=1 but tls_ca_file not set'' []; ret (Some (-1, cfg)) }
               else ret (Some (0, cfg))) })) } }"


section \<open>Reference\<close>

text \<open>
  What the assignments come to when the process survives: the configuration with its gaps filled, and the
  one a section describes, as functions of the data.
\<close>

definition if_unset :: "string option \<Rightarrow> string \<Rightarrow> string option" where
  "if_unset p d = (case p of None \<Rightarrow> Some d | Some s \<Rightarrow> Some s)"

definition defaulted :: "np_config \<Rightarrow> np_config" where
  "defaulted c = c\<lparr>
     device_id := if_unset (device_id c) ''router-1'',
     broker_host := if_unset (broker_host c) ''127.0.0.1'',
     broker_port := (if 0 < broker_port c then broker_port c else if tls_enabled c then 8883 else 1883),
     keepalive := (if 0 < keepalive c then keepalive c else 30),
     nft_table := if_unset (nft_table c) ''inet netparent'',
     nft_set := if_unset (nft_set c) ''blocked_macs'',
     log_level := (if 0 \<le> log_level c then log_level c else 2)\<rparr>"

definition section_config :: "uci_section \<Rightarrow> np_config" where
  "section_config sec = \<lparr>
     device_id = uci_get sec ''device_id'',
     broker_host = uci_get sec ''broker_host'',
     broker_port = uci_get_int sec ''broker_port'' 0,
     keepalive = uci_get_int sec ''keepalive'' 0,
     tls_enabled = uci_get_bool sec ''tls_enabled'' True,
     tls_ca_file = uci_get sec ''tls_ca_file'',
     tls_cert_file = uci_get sec ''tls_cert_file'',
     tls_key_file = uci_get sec ''tls_key_file'',
     tls_insecure = uci_get_bool sec ''tls_insecure'' False,
     username = uci_get sec ''username'',
     password = uci_get sec ''password'',
     nft_table = uci_get sec ''nft_table'',
     nft_set = uci_get sec ''nft_set'',
     log_level = uci_get_int sec ''log_level'' (-1),
     log_syslog = uci_get_bool sec ''log_syslog'' True\<rparr>"

definition section_result :: "uci_section \<Rightarrow> int \<times> np_config" where
  "section_result sec = (let cfg = defaulted (section_config sec)
     in (if tls_enabled cfg \<and> tls_ca_file cfg = None then -1 else 0, cfg))"

text \<open>The result of the load as a function of what libuci answers.\<close>

definition load_outcome :: "env \<Rightarrow> history \<Rightarrow> int \<times> np_config" where
  "load_outcome E t =
     (if \<not> e_uci_alloc E (t @ [Uci_alloc_context]) then (-1, config_initial)
      else case Option.bind (e_uci_load E (t @ [Uci_alloc_context, Uci_load ''netparent''])) find_main of
          None \<Rightarrow> (0, defaulted config_initial)
        | Some sec \<Rightarrow> section_result sec)"


section \<open>Lemmas\<close>

lemma str_Some [simp]: "str (Some s) = s"
  by (simp add: str_def)

lemma if_unset_simps [simp]: "if_unset None d = Some d" "if_unset (Some s) d = Some s" "if_unset p d \<noteq> None"
  by (simp_all add: if_unset_def split: option.splits)

lemma owns_xstrdup: "owns E (xstrdup E p) s p"
proof (cases p)
  case None
  then show ?thesis by (simp add: xstrdup_def owns_return)
next
  case (Some v)
  show ?thesis
  proof (cases "e_malloc E (sy_trace s @ [Malloc])")
    case True
    with Some show ?thesis by (simp add: xstrdup_def owns_def)
  next
    case False
    have "list_all is_log (log_calls E NP_LOG_ERR msg s')" for msg s' by (rule run_np_log(2))
    then have "killed E (sy_trace s) (sy_trace s @ [] @ [Malloc] @ log_calls E NP_LOG_ERR msg s' @ [Abort])" for msg s'
      unfolding killed_def using False by (intro exI conjI) (auto simp only: append_Nil list.set empty_iff)
    with Some False show ?thesis
      by (simp add: xstrdup_def owns_def abort_np_def LOG_ERR_def run_np_log(1))
  qed
qed

lemma owns_set_str: "owns E (set_str E dst src c) s (dst (\<lambda>_. src) c)"
  unfolding set_str_def by (rule owns_then, rule owns_xstrdup, rule owns_return)

text \<open>A guarded assignment as an unguarded one, for each of the fields with a default.\<close>

lemma gap_filled:
  "(if device_id c = None then device_id_update (\<lambda>_. Some d) c else c) = c\<lparr>device_id := if_unset (device_id c) d\<rparr>"
  "(if broker_host c = None then broker_host_update (\<lambda>_. Some d) c else c) = c\<lparr>broker_host := if_unset (broker_host c) d\<rparr>"
  "(if nft_table c = None then nft_table_update (\<lambda>_. Some d) c else c) = c\<lparr>nft_table := if_unset (nft_table c) d\<rparr>"
  "(if nft_set c = None then nft_set_update (\<lambda>_. Some d) c else c) = c\<lparr>nft_set := if_unset (nft_set c) d\<rparr>"
  "(if broker_port c \<le> 0 then c\<lparr>broker_port := n\<rparr> else c) = c\<lparr>broker_port := (if 0 < broker_port c then broker_port c else n)\<rparr>"
  "(if keepalive c \<le> 0 then c\<lparr>keepalive := n\<rparr> else c) = c\<lparr>keepalive := (if 0 < keepalive c then keepalive c else n)\<rparr>"
  "(if log_level c < 0 then c\<lparr>log_level := n\<rparr> else c) = c\<lparr>log_level := (if 0 \<le> log_level c then log_level c else n)\<rparr>"
  by (cases c; simp add: if_unset_def split: option.splits)+

lemma owns_set_str_if:
  "owns E (set_str_if E (device_id c = None) device_id_update d c) s (c\<lparr>device_id := if_unset (device_id c) d\<rparr>)"
  "owns E (set_str_if E (broker_host c = None) broker_host_update d c) s (c\<lparr>broker_host := if_unset (broker_host c) d\<rparr>)"
  "owns E (set_str_if E (nft_table c = None) nft_table_update d c) s (c\<lparr>nft_table := if_unset (nft_table c) d\<rparr>)"
  "owns E (set_str_if E (nft_set c = None) nft_set_update d c) s (c\<lparr>nft_set := if_unset (nft_set c) d\<rparr>)"
  unfolding gap_filled [symmetric] by (auto intro: owns_set_str owns_return)

lemma owns_apply_defaults: "owns E (apply_defaults E c) s (defaulted c)"
proof -
  let ?gs = "[\<lambda>c. c\<lparr>device_id := if_unset (device_id c) ''router-1''\<rparr>,
     \<lambda>c. c\<lparr>broker_host := if_unset (broker_host c) ''127.0.0.1''\<rparr>,
     \<lambda>c. c\<lparr>broker_port := (if 0 < broker_port c then broker_port c else if tls_enabled c then 8883 else 1883)\<rparr>,
     \<lambda>c. c\<lparr>keepalive := (if 0 < keepalive c then keepalive c else 30)\<rparr>,
     \<lambda>c. c\<lparr>nft_table := if_unset (nft_table c) ''inet netparent''\<rparr>,
     \<lambda>c. c\<lparr>nft_set := if_unset (nft_set c) ''blocked_macs''\<rparr>,
     \<lambda>c. c\<lparr>log_level := (if 0 \<le> log_level c then log_level c else level_num NP_LOG_INFO)\<rparr>]"
  have "fold (\<lambda>g. g) ?gs c = defaulted c" by (cases c) (simp add: defaulted_def)
  moreover have "owns E (apply_defaults E c) s (fold (\<lambda>g. g) ?gs c)"
    unfolding apply_defaults_def gap_filled(5,6,7)
    by (rule owns_in_turn, simp only: list_all2_Cons list_all2_Nil refl simp_thms, intro conjI allI owns_set_str_if owns_return)
  ultimately show ?thesis by (simp only:)
qed

lemma owns_read_section: "owns E (read_section E sec c) s (section_config sec)"
proof -
  let ?gs = "[device_id_update (\<lambda>_. uci_get sec ''device_id''),
     broker_host_update (\<lambda>_. uci_get sec ''broker_host''),
     \<lambda>c. c\<lparr>broker_port := uci_get_int sec ''broker_port'' 0\<rparr>,
     \<lambda>c. c\<lparr>keepalive := uci_get_int sec ''keepalive'' 0\<rparr>,
     \<lambda>c. c\<lparr>tls_enabled := uci_get_bool sec ''tls_enabled'' True\<rparr>,
     tls_ca_file_update (\<lambda>_. uci_get sec ''tls_ca_file''),
     tls_cert_file_update (\<lambda>_. uci_get sec ''tls_cert_file''),
     tls_key_file_update (\<lambda>_. uci_get sec ''tls_key_file''),
     \<lambda>c. c\<lparr>tls_insecure := uci_get_bool sec ''tls_insecure'' False\<rparr>,
     username_update (\<lambda>_. uci_get sec ''username''),
     password_update (\<lambda>_. uci_get sec ''password''),
     nft_table_update (\<lambda>_. uci_get sec ''nft_table''),
     nft_set_update (\<lambda>_. uci_get sec ''nft_set''),
     \<lambda>c. c\<lparr>log_level := uci_get_int sec ''log_level'' (-1)\<rparr>,
     \<lambda>c. c\<lparr>log_syslog := uci_get_bool sec ''log_syslog'' True\<rparr>]"
  have "fold (\<lambda>g. g) ?gs c = section_config sec" by (cases c) (simp add: section_config_def)
  moreover have "owns E (read_section E sec c) s (fold (\<lambda>g. g) ?gs c)"
    unfolding read_section_def
    by (rule owns_in_turn, simp only: list_all2_Cons list_all2_Nil refl simp_thms, intro conjI allI owns_set_str owns_return)
  ultimately show ?thesis by (simp only:)
qed

text \<open>The configuration every later component relies on.\<close>

definition config_complete :: "np_config \<Rightarrow> bool" where
  "config_complete c = (device_id c \<noteq> None \<and> broker_host c \<noteq> None \<and> nft_table c \<noteq> None
     \<and> nft_set c \<noteq> None \<and> 0 < broker_port c \<and> 0 < keepalive c \<and> 0 \<le> log_level c
     \<and> is_int32 (broker_port c) \<and> is_int32 (keepalive c) \<and> is_int32 (log_level c))"

definition ints_fit :: "np_config \<Rightarrow> bool" where
  "ints_fit c = (is_int32 (broker_port c) \<and> is_int32 (keepalive c) \<and> is_int32 (log_level c))"

lemma defaulted_complete: "ints_fit c \<Longrightarrow> config_complete (defaulted c)"
  by (auto simp: defaulted_def config_complete_def ints_fit_def is_int32_def)

lemma defaulted_tls [simp]:
  "tls_enabled (defaulted c) = tls_enabled c" "tls_ca_file (defaulted c) = tls_ca_file c"
  by (simp_all add: defaulted_def)

lemma defaulted_idempotent: "defaulted (defaulted c) = defaulted c"
  by (simp add: defaulted_def if_unset_def split: option.splits)

lemma uci_get_int_fits: "is_int32 d \<Longrightarrow> is_int32 (uci_get_int s name d)"
  by (simp add: uci_get_int_def split: option.splits)

lemma small_ints [simp]: "is_int32 0" "is_int32 (-1)"
  by (simp_all add: is_int32_def)

lemma initial_fits: "ints_fit config_initial" "ints_fit (section_config sec)"
  by (simp_all add: ints_fit_def config_initial_def config_zero_def section_config_def uci_get_int_fits)

lemma owns_load_tail:
  "owns E (then_np (apply_defaults E config_initial) (\<lambda>cfg. ret (Some (0, cfg)))) s (0, defaulted config_initial)"
  by (rule owns_then [OF owns_apply_defaults owns_return])

lemma owns_load_section:
  "owns E (then_np (read_section E sec c) (\<lambda>cfg. do {
             tell Uci_unload;
             tell Uci_free_context;
             then_np (apply_defaults E cfg) (\<lambda>cfg.
               if tls_enabled cfg \<and> tls_ca_file cfg = None
               then do { LOG_ERR E fmt []; ret (Some (-1, cfg)) }
               else ret (Some (0, cfg))) })) s (section_result sec)"
proof (rule owns_then [OF owns_read_section])
  fix s
  have "owns E (if b then do { LOG_ERR E fmt []; ret (Some (-1, cfg)) } else ret (Some (0, cfg))) s
      (if b then -1 else 0, cfg)" for b and cfg :: np_config and s
    by (cases b) (simp_all only: if_True if_False, rule owns_after, rule emits_LOG, simp_all add: owns_return is_log_abort)
  then show "owns E (do {
      tell Uci_unload;
      tell Uci_free_context;
      then_np (apply_defaults E (section_config sec)) (\<lambda>cfg.
        if tls_enabled cfg \<and> tls_ca_file cfg = None
        then do { LOG_ERR E fmt []; ret (Some (-1, cfg)) }
        else ret (Some (0, cfg))) }) s (section_result sec)"
    unfolding section_result_def Let_def
    by (intro owns_after owns_then [OF owns_apply_defaults] emits_tell) (simp_all only: defaulted_tls call.distinct not_False_eq_True)
qed

lemma load_result: "owns E (np_config_load E) s (load_outcome E (sy_trace s))"
  unfolding np_config_load_def load_outcome_def
  by (rule owns_after)
    (auto intro!: owns_after owns_load_tail owns_load_section owns_return emits_rules
      split: option.splits)

lemma emits_in_turn_steps: "list_all (\<lambda>f. \<forall>c. emits P (f c)) fs \<Longrightarrow> emits P (in_turn fs c)"
  by (rule emits_in_turn) (simp add: list_all_iff)

lemma emits_set_str [emits_rules]:
  assumes "\<And>c. is_log c \<or> c = Malloc \<or> c = Abort \<Longrightarrow> P c"
  shows "emits P (set_str E dst src c)"
  unfolding set_str_def xstrdup_def by (intro emits_rules) (simp_all add: assms)

lemma emits_config_load:
  assumes "\<And>c. is_log c \<Longrightarrow> P c" "P Malloc" "P Abort" "P Uci_alloc_context" "\<And>n. P (Uci_load n)" "P Uci_unload"
    "P Uci_free_context"
  shows "emits P (np_config_load E)"
proof -
  have str: "emits P (set_str E dst src c)" for dst src c
    by (rule emits_set_str) (use assms in blast)
  have "emits P (apply_defaults E c)" "emits P (read_section E sec c)" for c sec
    unfolding apply_defaults_def read_section_def
    by (rule emits_in_turn_steps, simp add: str emits_return)+
  with assms show ?thesis
    unfolding np_config_load_def by (intro emits_rules) auto
qed

lemma load_outcome_complete: "load_outcome E t = (0, cfg) \<Longrightarrow> config_complete cfg"
  using defaulted_complete [OF initial_fits(1)] defaulted_complete [OF initial_fits(2)]
  by (auto simp: load_outcome_def section_result_def Let_def split: if_splits option.splits)

lemma load_cases:
  assumes "run_state (np_config_load E) s = (r, s')"
  obtains "r = None" "killed E (sy_trace s) (sy_trace s')"
    | n cfg where "r = Some (n, cfg)" "(n, cfg) = load_outcome E (sy_trace s)" "n = 0 \<Longrightarrow> config_complete cfg"
proof (cases r)
  case None
  with assms load_result [of E s] show ?thesis by (auto simp: owns_def intro: that(1))
next
  case (Some x)
  with assms load_result [of E s] have "x = load_outcome E (sy_trace s)" by (simp add: owns_def)
  with Some that(2) [of "fst x" "snd x"] load_outcome_complete [of E "sy_trace s" "snd x"] show ?thesis
    by (metis prod.collapse)
qed


section \<open>Properties\<close>

text \<open>
  C19: loading on every path. The process is killed only by an allocation that failed; otherwise the load
  fails exactly when libuci has no context, or when the section is there, leaves TLS on and names no CA file,
  and without a package or a \<open>main\<close> section it succeeds with TLS on and no CA file. The configuration
  is the one of the section, its gaps filled.
\<close>

theorem config_load_result:
  "case fst (run_state (np_config_load E) s) of
     None \<Rightarrow> killed E (sy_trace s) (sy_trace (snd (run_state (np_config_load E) s)))
   | Some (rc, cfg) \<Rightarrow>
       (if \<not> e_uci_alloc E (sy_trace s @ [Uci_alloc_context]) then rc = -1
        else case Option.bind (e_uci_load E (sy_trace s @ [Uci_alloc_context, Uci_load ''netparent''])) find_main of
            None \<Rightarrow> rc = 0 \<and> cfg = defaulted config_initial \<and> tls_enabled cfg \<and> tls_ca_file cfg = None
          | Some sec \<Rightarrow> cfg = defaulted (section_config sec) \<and>
              rc = (if uci_get_bool sec ''tls_enabled'' True \<and> uci_get sec ''tls_ca_file'' = None then -1 else 0))"
proof -
  have "tls_enabled config_initial" "tls_ca_file config_initial = None"
    by (simp_all add: config_initial_def config_zero_def)
  moreover obtain r s' where r: "run_state (np_config_load E) s = (r, s')" by force
  ultimately show ?thesis
    by (cases rule: load_cases [OF r])
      (auto simp: r load_outcome_def section_result_def Let_def section_config_def split: option.splits if_splits)
qed

text \<open>
  C39: what a numeric option means. A missing option, a list and the empty string give the default. The
  decimal text of a C \<open>int\<close> is read as that \<open>int\<close>; that of a larger \<open>long\<close> loses its upper 32
  bits, as the cast of the source does, and beyond \<open>long\<close> \<open>strtol\<close> has saturated first. The result
  is an \<open>int\<close> whatever the option holds, as far as the default is one.
\<close>

theorem uci_get_int_spec:
  "((\<forall>v. us_lookup sec name = Some (Uci_string v) \<longrightarrow> v = []) \<longrightarrow> uci_get_int sec name d = d) \<and>
   (us_lookup sec name = Some (Uci_string (show_int i)) \<longrightarrow>
      uci_get_int sec name d = (if - (2 ^ 31) \<le> i \<and> i < 2 ^ 31 then i
        else (max (- (2 ^ 63)) (min (2 ^ 63 - 1) i) + 2 ^ 31) mod 2 ^ 32 - 2 ^ 31)) \<and>
   (is_int32 d \<longrightarrow> is_int32 (uci_get_int sec name d))"
proof (intro conjI impI)
  assume "\<forall>v. us_lookup sec name = Some (Uci_string v) \<longrightarrow> v = []"
  then show "uci_get_int sec name d = d"
    by (auto simp: uci_get_int_def uci_get_def split: option.splits uci_option.splits)
next
  assume "us_lookup sec name = Some (Uci_string (show_int i))"
  moreover have "show_int i \<noteq> []" by (simp add: show_int_def)
  ultimately have "uci_get_int sec name d = int_cast (clamp_long i)"
    by (simp add: uci_get_int_def uci_get_def strtol_show_int)
  moreover have "clamp_long i = max (- (2 ^ 63)) (min (2 ^ 63 - 1) i)"
    by (simp add: clamp_long_def LONG_MAX_def LONG_MIN_def)
  moreover have "int_cast (clamp_long i) = i" if "- (2 ^ 31) \<le> i \<and> i < 2 ^ 31"
    using that by (simp add: clamp_long_id int_cast_id is_int32_def is_long_def LONG_MAX_def LONG_MIN_def)
  ultimately show "uci_get_int sec name d = (if - (2 ^ 31) \<le> i \<and> i < 2 ^ 31 then i
      else (max (- (2 ^ 63)) (min (2 ^ 63 - 1) i) + 2 ^ 31) mod 2 ^ 32 - 2 ^ 31)"
    by (simp add: int_cast_def)
qed (rule uci_get_int_fits)

definition numeric_section :: uci_section where
  "numeric_section = \<lparr>us_name = [], us_type = [],
     us_lookup = [''p'' \<mapsto> Uci_string ''-42'', ''q'' \<mapsto> Uci_string ''4294967338'', ''r'' \<mapsto> Uci_list [''7'']]\<rparr>"

theorem uci_get_int_spec_witness:
  "uci_get_int numeric_section ''p'' 7 = -42 \<and> uci_get_int numeric_section ''q'' 7 = 42 \<and>
   uci_get_int numeric_section ''r'' 7 = 7"
proof -
  have digits: "digit_char 2 = CHR ''2''" "digit_char 3 = CHR ''3''" "digit_char 4 = CHR ''4''"
    "digit_char 6 = CHR ''6''" "digit_char 7 = CHR ''7''" "digit_char 8 = CHR ''8''" "digit_char 9 = CHR ''9''"
    by code_simp+
  have "show_int (-42) = ''-42''" "show_int 4294967338 = ''4294967338''"
    by (simp_all add: show_int_def show_nat.simps digits)
  then have "us_lookup numeric_section ''p'' = Some (Uci_string (show_int (-42)))"
    "us_lookup numeric_section ''q'' = Some (Uci_string (show_int 4294967338))"
    "us_lookup numeric_section ''r'' = Some (Uci_list [''7''])"
    by (simp_all add: numeric_section_def)
  with uci_get_int_spec [of numeric_section "''p''" 7 "-42"] uci_get_int_spec [of numeric_section "''q''" 7 4294967338]
    uci_get_int_spec [of numeric_section "''r''" 7] show ?thesis by simp
qed

text \<open>
  The port default follows TLS. Whenever the section gives no positive port, the loaded port is 8883
  with TLS and 1883 without; a positive one is kept.
\<close>

lemma broker_port_default:
  "broker_port (defaulted cfg) =
     (if broker_port cfg > 0 then broker_port cfg else if tls_enabled cfg then 8883 else 1883)
   \<and> defaulted (defaulted cfg) = defaulted cfg"
  by (rule conjI [OF _ defaulted_idempotent]) (simp add: defaulted_def)

end
