(* ===== verification/Mac.thy ===== *)
theory Mac
  imports NP_Prelude
begin

text \<open>
  \<open>np_mac_normalize\<close> of \<open>src/src/nft.c\<close>: the loop over the input with its counters, the
  two-byte digit buffer and the caller's output buffer. Writes go through \<open>buf_puts\<close>, which
  tells a write outside the buffer (\<open>Overrun\<close>) from the code's own \<open>return false\<close>
  (\<open>Reject\<close>), so memory safety is a theorem and not an accident of \<open>list_update\<close>.
  The reference definition \<open>mac_reference\<close> says which texts are MAC addresses: split at
  the separators, six groups of one or two hex digits.
\<close>

section \<open>The code\<close>

datatype 'a verdict = Go 'a | Reject | Overrun

fun buf_puts :: "char list \<Rightarrow> (nat \<times> char) list \<Rightarrow> char list verdict" where
  "buf_puts buf [] = Go buf"
| "buf_puts buf ((i, c) # ws) = (if i < length buf then buf_puts (buf[i := c]) ws else Overrun)"

record mac_state =
  ms_bytes :: nat
  ms_hexcount :: nat
  ms_hex :: "char list"
  ms_out :: "char list"

text \<open>A single digit is moved to the right and padded with a zero.\<close>

definition mac_pad :: "mac_state \<Rightarrow> char list verdict" where
  "mac_pad m = (if ms_hexcount m = 1
     then buf_puts (ms_hex m) [(1, ms_hex m ! 0), (0, CHR ''0'')]
     else Go (ms_hex m))"

definition mac_step :: "mac_state \<Rightarrow> char \<Rightarrow> mac_state verdict" where
  "mac_step m c =
     (if isxdigit c then
        (if ms_hexcount m \<ge> 2 then Reject
         else case buf_puts (ms_hex m) [(ms_hexcount m, tolower c)] of
             Go h \<Rightarrow> Go (m\<lparr>ms_hexcount := ms_hexcount m + 1, ms_hex := h\<rparr>)
           | Reject \<Rightarrow> Reject | Overrun \<Rightarrow> Overrun)
      else if c = CHR '':'' \<or> c = CHR ''-'' then
        (if ms_hexcount m = 0 then Reject
         else case mac_pad m of
             Go h \<Rightarrow>
               (if ms_bytes m \<ge> 6 then Reject
                else case buf_puts (ms_out m)
                       ([(ms_bytes m * 3 + 0, h ! 0), (ms_bytes m * 3 + 1, h ! 1)]
                        @ (if ms_bytes m < 5 then [(ms_bytes m * 3 + 2, CHR '':'')] else [])) of
                    Go out \<Rightarrow> Go (m\<lparr>ms_bytes := ms_bytes m + 1, ms_hexcount := 0,
                                      ms_hex := h, ms_out := out\<rparr>)
                  | Reject \<Rightarrow> Reject | Overrun \<Rightarrow> Overrun)
           | Reject \<Rightarrow> Reject | Overrun \<Rightarrow> Overrun)
      else if isspace c then Go m
      else Reject)"

fun mac_loop :: "mac_state \<Rightarrow> string \<Rightarrow> mac_state verdict" where
  "mac_loop m [] = Go m"
| "mac_loop m (c # cs) = (case mac_step m c of
      Go m' \<Rightarrow> mac_loop m' cs | Reject \<Rightarrow> Reject | Overrun \<Rightarrow> Overrun)"

text \<open>After the loop: flush a pending group, require six bytes, terminate the string.\<close>

definition mac_flush :: "mac_state \<Rightarrow> mac_state verdict" where
  "mac_flush m =
     (if ms_hexcount m > 0 then
        (case mac_pad m of
            Go h \<Rightarrow>
              (if ms_bytes m \<ge> 6 then Reject
               else case buf_puts (ms_out m)
                      [(ms_bytes m * 3 + 0, h ! 0), (ms_bytes m * 3 + 1, h ! 1)] of
                   Go out \<Rightarrow> Go (m\<lparr>ms_bytes := ms_bytes m + 1, ms_hex := h, ms_out := out\<rparr>)
                 | Reject \<Rightarrow> Reject | Overrun \<Rightarrow> Overrun)
          | Reject \<Rightarrow> Reject | Overrun \<Rightarrow> Overrun)
      else Go m)"

definition mac_finish :: "mac_state \<Rightarrow> char list verdict" where
  "mac_finish m = (case mac_flush m of
      Go m' \<Rightarrow> (if ms_bytes m' \<noteq> 6 then Reject else buf_puts (ms_out m') [(17, NUL)])
    | Reject \<Rightarrow> Reject | Overrun \<Rightarrow> Overrun)"

text \<open>
  \<open>hex0\<close> is the undefined initial contents of the local \<open>char hex[2]\<close>, \<open>out\<close> the
  contents of the caller's buffer; \<open>None\<close> is the NULL pointer. \<open>Go\<close> returns the buffer.
\<close>

definition np_mac_normalize_buf :: "char list \<Rightarrow> string option \<Rightarrow> char list option \<Rightarrow> char list verdict"
  where
  "np_mac_normalize_buf hex0 inp out = (case (inp, out) of
      (Some s, Some buf) \<Rightarrow>
        (case mac_loop \<lparr>ms_bytes = 0, ms_hexcount = 0, ms_hex = hex0, ms_out = buf\<rparr> s of
            Go m \<Rightarrow> mac_finish m | Reject \<Rightarrow> Reject | Overrun \<Rightarrow> Overrun)
    | _ \<Rightarrow> Reject)"

text \<open>What the callers see: \<open>char norm[18]\<close> read as a string.\<close>

definition np_mac_normalize :: "string \<Rightarrow> string option" where
  "np_mac_normalize s =
     (case np_mac_normalize_buf [NUL, NUL] (Some s) (Some (replicate 18 NUL)) of
        Go buf \<Rightarrow> Some (c_str buf) | _ \<Rightarrow> None)"


section \<open>The reference\<close>

definition is_sep :: "char \<Rightarrow> bool" where
  "is_sep c = (c = CHR '':'' \<or> c = CHR ''-'')"

fun split_groups :: "string \<Rightarrow> string list" where
  "split_groups [] = [[]]"
| "split_groups (c # cs) = (if is_sep c then [] # split_groups cs
     else (c # hd (split_groups cs)) # tl (split_groups cs))"

definition good_group :: "string \<Rightarrow> bool" where
  "good_group g = (length g \<in> {1, 2} \<and> list_all isxdigit g)"

definition norm_group :: "string \<Rightarrow> string" where
  "norm_group g = (if length g = 1 then CHR ''0'' # List.map tolower g else List.map tolower g)"

definition drop_last_empty :: "string list \<Rightarrow> string list" where
  "drop_last_empty gs = (if gs \<noteq> [] \<and> last gs = [] then butlast gs else gs)"

fun join_colon :: "string list \<Rightarrow> string" where
  "join_colon [] = []"
| "join_colon [g] = g"
| "join_colon (g # gs) = g @ CHR '':'' # join_colon gs"

definition mac_reference :: "string \<Rightarrow> string option" where
  "mac_reference s = (let gs = drop_last_empty (split_groups (filter (\<lambda>c. \<not> isspace c) s)) in
     if length gs = 6 \<and> list_all good_group gs then Some (join_colon (List.map norm_group gs))
     else None)"

text \<open>The canonical form: six pairs of lower-case hex digits joined by colons, 17 bytes.\<close>

definition hex_pair :: "string \<Rightarrow> bool" where
  "hex_pair g = (length g = 2 \<and> list_all lower_hex g)"

definition canonical_mac :: "string \<Rightarrow> bool" where
  "canonical_mac s = (length s = 17 \<and>
     list_all (\<lambda>i. if i mod 3 = 2 then s ! i = CHR '':'' else lower_hex (s ! i)) [0..<17])"


section \<open>The abstract loop\<close>

text \<open>
  The same loop over lists: the groups finished so far and the raw digits of the current one. The
  code refines it and it computes the reference.
\<close>

fun mac_abs :: "string list \<Rightarrow> string \<Rightarrow> string \<Rightarrow> string list option" where
  "mac_abs fin cur [] =
     (if cur = [] then (if length fin = 6 then Some fin else None)
      else if length fin = 5 then Some (fin @ [norm_group cur]) else None)"
| "mac_abs fin cur (c # cs) =
     (if isxdigit c then (if length cur \<ge> 2 then None else mac_abs fin (cur @ [c]) cs)
      else if is_sep c then
        (if cur = [] \<or> length fin \<ge> 6 then None else mac_abs (fin @ [norm_group cur]) [] cs)
      else if isspace c then mac_abs fin cur cs
      else None)"

definition accept_groups :: "string list \<Rightarrow> string list \<Rightarrow> string list option" where
  "accept_groups fin gs = (let gs' = drop_last_empty gs in
     if length fin + length gs' = 6 \<and> list_all good_group gs' then Some (fin @ List.map norm_group gs')
     else None)"

lemma split_groups_nonempty [simp]: "split_groups s \<noteq> []"
  by (cases s) auto

lemma sep_class [c_classes]: "is_sep c \<Longrightarrow> \<not> isspace c \<and> \<not> isxdigit c"
  by (auto simp: is_sep_def)

lemma drop_last_empty_Cons:
  "drop_last_empty (g # gs) = (if gs = [] then (if g = [] then [] else [g])
     else g # drop_last_empty gs)"
  by (auto simp: drop_last_empty_def)

lemma accept_groups_bad:
  "g \<noteq> [] \<or> gs \<noteq> [] \<Longrightarrow> \<not> good_group g \<Longrightarrow> accept_groups fin (g # gs) = None"
  by (auto simp: accept_groups_def drop_last_empty_Cons Let_def)

lemma accept_groups_full:
  "length fin \<ge> 6 \<Longrightarrow> g \<noteq> [] \<or> gs \<noteq> [] \<Longrightarrow> accept_groups fin (g # gs) = None"
  by (auto simp: accept_groups_def drop_last_empty_Cons Let_def)

lemma accept_groups_step:
  "good_group g \<Longrightarrow> gs \<noteq> [] \<Longrightarrow>
   accept_groups fin (g # gs) = accept_groups (fin @ [norm_group g]) gs"
  by (auto simp: accept_groups_def drop_last_empty_Cons Let_def)

lemma good_group_append_long: "length cur \<ge> 2 \<Longrightarrow> \<not> good_group (cur @ c # g)"
  by (auto simp: good_group_def)

lemma good_group_bad_char: "\<not> isxdigit c \<Longrightarrow> \<not> good_group (cur @ c # g)"
  by (auto simp: good_group_def)

lemma mac_abs_reference:
  assumes "list_all isxdigit cur" "length cur \<le> 2" "length fin \<le> 6"
  shows "mac_abs fin cur s = (let gs = split_groups (filter (\<lambda>c. \<not> isspace c) s)
           in accept_groups fin ((cur @ hd gs) # tl gs))"
  using assms
proof (induction fin cur s rule: mac_abs.induct)
  case (1 fin cur)
  have "cur \<noteq> [] \<Longrightarrow> good_group cur"
    using 1 by (cases cur) (auto simp: good_group_def le_Suc_eq)
  then show ?case
    by (auto simp: accept_groups_def drop_last_empty_Cons Let_def)
next
  case (2 fin cur c cs)
  let ?gs = "split_groups (filter (\<lambda>c. \<not> isspace c) cs)"
  consider (hex) "isxdigit c" | (sep) "is_sep c" | (space) "\<not> isxdigit c" "\<not> is_sep c" "isspace c"
    | (other) "\<not> isxdigit c" "\<not> is_sep c" "\<not> isspace c" by blast
  then show ?case
  proof cases
    case hex
    then have ns: "\<not> isspace c" "\<not> is_sep c" using c_classes(4) sep_class by auto
    show ?thesis
    proof (cases "length cur \<ge> 2")
      case True
      with hex ns show ?thesis
        by (simp add: accept_groups_bad good_group_append_long)
    next
      case False
      with 2 hex ns show ?thesis by (simp add: Let_def)
    qed
  next
    case sep
    then have ns: "\<not> isspace c" "\<not> isxdigit c" using sep_class by auto
    have bad: "\<not> good_group []" by (simp add: good_group_def)
    consider "cur = []" | "length fin \<ge> 6" | (go) "cur \<noteq> []" "length fin < 6" by linarith
    then show ?thesis
    proof cases
      case go
      then have "good_group cur" using 2(4,5) by (cases cur) (auto simp: good_group_def le_Suc_eq)
      with go 2 sep ns show ?thesis by (simp add: accept_groups_step)
    qed (use sep ns bad in \<open>simp_all add: accept_groups_bad accept_groups_full\<close>)
  next
    case space
    with 2 show ?thesis by simp
  next
    case other
    then show ?thesis by (simp add: accept_groups_bad good_group_bad_char)
  qed
qed

lemma mac_abs_is_reference:
  "map_option join_colon (mac_abs [] [] s) = mac_reference s"
  by (simp add: mac_abs_reference mac_reference_def accept_groups_def Let_def)


section \<open>The code refines the abstract loop\<close>

definition mac_text :: "string list \<Rightarrow> string" where
  "mac_text fin = concat (List.map (\<lambda>g. g @ '':'') fin)"

definition mac_rel :: "nat \<Rightarrow> string list \<Rightarrow> string \<Rightarrow> mac_state \<Rightarrow> bool" where
  "mac_rel n fin cur m =
     (ms_bytes m = length fin \<and> length fin \<le> 6 \<and> list_all hex_pair fin \<and>
      ms_hexcount m = length cur \<and> length cur \<le> 2 \<and> list_all isxdigit cur \<and>
      length (ms_hex m) = 2 \<and> take (length cur) (ms_hex m) = List.map tolower cur \<and>
      18 \<le> n \<and> length (ms_out m) = n \<and>
      take (min 17 (3 * length fin)) (ms_out m) = take 17 (mac_text fin))"

lemma length_mac_text: "list_all hex_pair fin \<Longrightarrow> length (mac_text fin) = 3 * length fin"
  by (induction fin) (auto simp: mac_text_def hex_pair_def)

lemma mac_text_snoc: "mac_text (fin @ [g]) = mac_text fin @ g @ '':''"
  by (simp add: mac_text_def)

lemma length_2_cases: "length xs = 2 \<Longrightarrow> xs = [xs ! 0, xs ! 1]"
  by (cases xs; cases "tl xs") auto

lemma hex_pair_norm_group: "good_group g \<Longrightarrow> hex_pair (norm_group g)"
  by (auto simp: good_group_def norm_group_def hex_pair_def list_all_iff lower_hex_tolower)

lemma good_group_cur: "cur \<noteq> [] \<Longrightarrow> length cur \<le> 2 \<Longrightarrow> list_all isxdigit cur \<Longrightarrow> good_group cur"
  by (cases cur) (auto simp: good_group_def le_Suc_eq)

lemma update_two: "i + 1 < length xs \<Longrightarrow> xs[i := a, Suc i := b] = take i xs @ [a, b] @ drop (i + 2) xs"
proof (induction i arbitrary: xs)
  case 0
  then show ?case by (cases xs; cases "tl xs") auto
next
  case (Suc i)
  then show ?case by (cases xs) auto
qed

lemma update_three: "i + 2 < length xs \<Longrightarrow>
    xs[i := a, Suc i := b, Suc (Suc i) := c] = take i xs @ [a, b, c] @ drop (Suc (Suc (Suc i))) xs"
proof (induction i arbitrary: xs)
  case 0
  then show ?case by (cases xs; cases "tl xs"; cases "tl (tl xs)") auto
next
  case (Suc i)
  then show ?case by (cases xs) auto
qed

lemma mac_pad_rel:
  assumes "mac_rel n fin cur m" "cur \<noteq> []"
  shows "mac_pad m = Go (norm_group cur)"
proof -
  obtain a b where h: "ms_hex m = [a, b]"
    using assms(1) length_2_cases unfolding mac_rel_def by blast
  show ?thesis using assms h
    by (cases cur; cases "tl cur")
      (auto simp: mac_rel_def mac_pad_def norm_group_def)
qed

lemma put_group:
  assumes n: "18 \<le> n" "length out = n" and k: "length fin < 6" "list_all hex_pair fin"
    and pre: "take (min 17 (3 * length fin)) out = take 17 (mac_text fin)"
    and g: "hex_pair g"
  shows "\<exists>out'. buf_puts out ([(length fin * 3 + 0, g ! 0), (length fin * 3 + 1, g ! 1)]
            @ (if length fin < 5 then [(length fin * 3 + 2, CHR '':'')] else [])) = Go out'
          \<and> length out' = n
          \<and> take (min 17 (3 * Suc (length fin))) out' = take 17 (mac_text (fin @ [g]))"
proof -
  let ?i = "length fin * 3"
  have gg: "g = [g ! 0, g ! 1]" using g length_2_cases unfolding hex_pair_def by blast
  have lt: "length (mac_text fin) = ?i" using length_mac_text [OF k(2)] by simp
  show ?thesis
  proof (cases "length fin < 5")
    case True
    then have b: "?i + 2 < length out" using n by simp
    have pre': "take ?i out = mac_text fin" using pre True lt by (simp add: mult.commute min_def)
    have "take (3 * Suc (length fin)) (out[?i := g ! 0, Suc ?i := g ! 1, Suc (Suc ?i) := CHR '':''])
        = mac_text fin @ g @ '':''"
      unfolding update_three [OF b] pre' using lt gg by (simp add: mult.commute)
    moreover have "take 17 (mac_text fin @ g @ '':'') = mac_text fin @ g @ '':''"
      using lt True g by (simp add: hex_pair_def)
    ultimately show ?thesis using True b n lt
      by (simp add: mac_text_snoc min_def)
  next
    case False
    with k have five: "length fin = 5" by simp
    then have b: "?i + 1 < length out" using n by simp
    have pre': "take ?i out = mac_text fin" using pre five lt by simp
    have "take 17 (out[?i := g ! 0, Suc ?i := g ! 1]) = take 17 (mac_text fin @ g @ '':'')"
      unfolding update_two [OF b] pre' using lt gg five g by (simp add: hex_pair_def)
    with False b n five show ?thesis by (simp add: mac_text_snoc)
  qed
qed

lemma mac_rel_hex:
  assumes "mac_rel n fin cur m" "isxdigit c" "length cur < 2"
  shows "\<exists>m'. mac_step m c = Go m' \<and> mac_rel n fin (cur @ [c]) m'"
proof -
  obtain a b where h: "ms_hex m = [a, b]"
    using assms(1) length_2_cases unfolding mac_rel_def by blast
  show ?thesis using assms h
    by (cases cur) (auto simp: mac_rel_def mac_step_def)
qed

lemma mac_rel_sep:
  assumes r: "mac_rel n fin cur m" and s: "is_sep c" and c: "cur \<noteq> []" and f: "length fin < 6"
  shows "\<exists>m'. mac_step m c = Go m' \<and> mac_rel n (fin @ [norm_group cur]) [] m'"
proof -
  let ?g = "norm_group cur"
  have g: "hex_pair ?g"
    using r c by (auto simp: mac_rel_def intro: hex_pair_norm_group good_group_cur)
  from r f have "18 \<le> n" "length (ms_out m) = n" "length fin < 6" "list_all hex_pair fin"
    "take (min 17 (3 * length fin)) (ms_out m) = take 17 (mac_text fin)"
    by (simp_all add: mac_rel_def)
  from put_group [OF this g] obtain out' where out':
    "buf_puts (ms_out m) ([(length fin * 3 + 0, ?g ! 0), (length fin * 3 + 1, ?g ! 1)]
       @ (if length fin < 5 then [(length fin * 3 + 2, CHR '':'')] else [])) = Go out'"
    "length out' = n" "take (min 17 (3 * Suc (length fin))) out' = take 17 (mac_text (fin @ [?g]))"
    by blast
  have "mac_step m c = Go (m\<lparr>ms_bytes := length fin + 1, ms_hexcount := 0, ms_hex := ?g, ms_out := out'\<rparr>)"
    using r s c f out'(1) sep_class [OF s] mac_pad_rel [OF r c]
    unfolding mac_step_def by (cases "length fin < 5") (simp_all add: mac_rel_def is_sep_def)
  with r f g out'(2,3) show ?thesis
    by (simp add: mac_rel_def hex_pair_def)
qed

lemma c_str_out:
  assumes n: "18 \<le> n" "length out = n" and t: "take 17 out = t" "nul_free t"
  shows "\<exists>out'. buf_puts out [(17, NUL)] = Go out' \<and> c_str out' = t \<and> length out' = n"
proof -
  have "out[17 := NUL] = take 17 out @ NUL # drop 18 out"
    using n by (simp add: upd_conv_take_nth_drop)
  moreover have "takeWhile (\<lambda>c. c \<noteq> NUL) (t @ NUL # drop 18 out) = t"
    using t(2) by (subst takeWhile_append2) (auto simp: nul_free_def)
  ultimately have "c_str (out[17 := NUL]) = t" using t(1) by (simp add: c_str_def)
  with n show ?thesis by simp
qed

lemma join_colon_text: "fin \<noteq> [] \<Longrightarrow> mac_text fin = join_colon fin @ '':''"
  by (induction fin rule: join_colon.induct) (simp_all add: mac_text_def)

lemma six_groups:
  assumes "list_all hex_pair fin" "length fin = 6"
  shows "take 17 (mac_text fin) = join_colon fin" "nul_free (join_colon fin)"
    "length (join_colon fin) = 17"
proof -
  from assms have ne: "fin \<noteq> []" by auto
  have "length (mac_text fin) = 18" using length_mac_text [OF assms(1)] assms(2) by simp
  with join_colon_text [OF ne] show l: "length (join_colon fin) = 17" by simp
  with join_colon_text [OF ne] show "take 17 (mac_text fin) = join_colon fin" by simp
  have "NUL \<notin> set g" if "g \<in> set fin" for g
    using assms(1) that lower_hex_not_NUL by (fastforce simp: list_all_iff hex_pair_def)
  then have "NUL \<notin> set (mac_text fin)" by (auto simp: mac_text_def)
  with join_colon_text [OF ne] show "nul_free (join_colon fin)" by (simp add: nul_free_def)
qed

definition mac_outcome :: "nat \<Rightarrow> string list option \<Rightarrow> char list verdict \<Rightarrow> bool" where
  "mac_outcome n r v = (case r of None \<Rightarrow> v = Reject
     | Some fin \<Rightarrow> \<exists>out. v = Go out \<and> c_str out = join_colon fin \<and> length out = n)"

lemma mac_finish_refines:
  assumes r: "mac_rel n fin cur m"
  shows "mac_outcome n (mac_abs fin cur []) (mac_finish m)"
proof (cases "cur = []")
  case True
  show ?thesis
  proof (cases "length fin = 6")
    case len: True
    have "take 17 (ms_out m) = join_colon fin"
      using r len six_groups(1) by (simp add: mac_rel_def)
    moreover have "18 \<le> n" "length (ms_out m) = n" "nul_free (join_colon fin)"
      using r len six_groups(2) by (simp_all add: mac_rel_def)
    ultimately have "\<exists>out'. buf_puts (ms_out m) [(17, NUL)] = Go out' \<and> c_str out' = join_colon fin
        \<and> length out' = n"
      using c_str_out by blast
    with True len r show ?thesis
      by (auto simp: mac_outcome_def mac_finish_def mac_flush_def mac_rel_def)
  next
    case False
    with True r show ?thesis
      by (auto simp: mac_outcome_def mac_finish_def mac_flush_def mac_rel_def)
  qed
next
  case False
  let ?g = "norm_group cur"
  have hc: "ms_hexcount m > 0" using r False by (simp add: mac_rel_def)
  show ?thesis
  proof (cases "length fin < 6")
    case lt: True
    have g: "hex_pair ?g"
      using r False by (auto simp: mac_rel_def intro: hex_pair_norm_group good_group_cur)
    show ?thesis
    proof (cases "length fin = 5")
      case five: True
      from r lt have "18 \<le> n" "length (ms_out m) = n" "length fin < 6" "list_all hex_pair fin"
        "take (min 17 (3 * length fin)) (ms_out m) = take 17 (mac_text fin)"
        by (simp_all add: mac_rel_def)
      from put_group [OF this g] five obtain out' where out':
        "buf_puts (ms_out m) [(15, ?g ! 0), (16, ?g ! 1)] = Go out'"
        "length out' = n" "take 17 out' = take 17 (mac_text (fin @ [?g]))"
        by auto
      have "list_all hex_pair (fin @ [?g])" "length (fin @ [?g]) = 6"
        using r g five by (simp_all add: mac_rel_def)
      note six = six_groups [OF this]
      have "18 \<le> n" using r by (simp add: mac_rel_def)
      from c_str_out [OF this out'(2)] out'(3) six obtain out'' where
        "buf_puts out' [(17, NUL)] = Go out''" "c_str out'' = join_colon (fin @ [?g])" "length out'' = n"
        by metis
      with hc five out'(1) mac_pad_rel [OF r False] r False show ?thesis
        by (simp add: mac_outcome_def mac_finish_def mac_flush_def mac_rel_def)
    next
      case notfive: False
      from r lt have "18 \<le> n" "length (ms_out m) = n" by (simp_all add: mac_rel_def)
      with hc lt notfive mac_pad_rel [OF r False] r False show ?thesis
        by (simp add: mac_outcome_def mac_finish_def mac_flush_def mac_rel_def)
    qed
  next
    case ge: False
    with hc mac_pad_rel [OF r False] r False show ?thesis
      by (simp add: mac_outcome_def mac_finish_def mac_flush_def mac_rel_def)
  qed
qed

lemma mac_loop_refines:
  assumes "mac_rel n fin cur m"
  shows "mac_outcome n (mac_abs fin cur s)
     (case mac_loop m s of Go m' \<Rightarrow> mac_finish m' | Reject \<Rightarrow> Reject | Overrun \<Rightarrow> Overrun)"
  using assms
proof (induction fin cur s arbitrary: m rule: mac_abs.induct)
  case (1 fin cur)
  then show ?case using mac_finish_refines by simp
next
  case (2 fin cur c cs)
  note r = 2(4)
  consider (hex) "isxdigit c" | (sep) "is_sep c" | (space) "\<not> isxdigit c" "\<not> is_sep c" "isspace c"
    | (other) "\<not> isxdigit c" "\<not> is_sep c" "\<not> isspace c" by blast
  then show ?case
  proof cases
    case hex
    show ?thesis
    proof (cases "length cur < 2")
      case True
      from mac_rel_hex [OF r hex True] obtain m' where
        "mac_step m c = Go m'" "mac_rel n fin (cur @ [c]) m'" by blast
      with 2(1) [OF hex] True hex show ?thesis by simp
    qed (use r hex in \<open>simp add: mac_outcome_def mac_step_def mac_rel_def\<close>)
  next
    case sep
    then have ns: "\<not> isxdigit c" using sep_class by auto
    consider "cur = []" | (full) "cur \<noteq> []" "length fin \<ge> 6" | (go) "cur \<noteq> []" "length fin < 6" by linarith
    then show ?thesis
    proof cases
      case 1
      with r sep ns show ?thesis by (auto simp: mac_outcome_def mac_step_def mac_rel_def is_sep_def)
    next
      case full
      with r sep ns mac_pad_rel [OF r full(1)] show ?thesis
        by (auto simp: mac_outcome_def mac_step_def mac_rel_def is_sep_def)
    next
      case go
      from mac_rel_sep [OF r sep go] obtain m' where
        "mac_step m c = Go m'" "mac_rel n (fin @ [norm_group cur]) [] m'" by blast
      with 2(2) [OF ns sep] go sep ns show ?thesis by simp
    qed
  next
    case space
    then have "mac_step m c = Go m" by (simp add: mac_step_def is_sep_def)
    with 2(3) [OF space] r space show ?thesis by simp
  next
    case other
    then show ?thesis by (simp add: mac_outcome_def mac_step_def is_sep_def)
  qed
qed

lemma mac_buf_outcome:
  assumes "length hex0 = 2" "18 \<le> length out"
  shows "mac_outcome (length out) (mac_abs [] [] s) (np_mac_normalize_buf hex0 (Some s) (Some out))"
  unfolding np_mac_normalize_buf_def
  using assms by (auto intro!: mac_loop_refines simp: mac_rel_def mac_text_def)

lemma np_mac_normalize_reference: "np_mac_normalize s = mac_reference s"
proof -
  have "mac_outcome 18 (mac_abs [] [] s)
      (np_mac_normalize_buf [NUL, NUL] (Some s) (Some (replicate 18 NUL)))"
    using mac_buf_outcome [of "[NUL, NUL]" "replicate 18 NUL" s] by simp
  then show ?thesis
    unfolding np_mac_normalize_def mac_abs_is_reference [symmetric]
    by (cases "mac_abs [] [] s") (auto simp: mac_outcome_def)
qed


section \<open>Canonical addresses\<close>

lemma canonical_groups:
  "canonical_mac s \<longleftrightarrow> (\<exists>gs. list_all hex_pair gs \<and> length gs = 6 \<and> s = join_colon gs)"
proof
  assume c: "canonical_mac s"
  then have "length s = Suc (Suc (Suc (Suc (Suc (Suc (Suc (Suc (Suc (Suc (Suc (Suc (Suc (Suc (Suc
      (Suc (Suc 0))))))))))))))))" by (simp add: canonical_mac_def)
  then obtain c0 c1 c2 c3 c4 c5 c6 c7 c8 c9 c10 c11 c12 c13 c14 c15 c16 where
    s: "s = [c0, c1, c2, c3, c4, c5, c6, c7, c8, c9, c10, c11, c12, c13, c14, c15, c16]"
    unfolding length_Suc_conv by auto
  let ?gs = "[[c0, c1], [c3, c4], [c6, c7], [c9, c10], [c12, c13], [c15, c16]]"
  have "list_all hex_pair ?gs \<and> length ?gs = 6 \<and> s = join_colon ?gs"
    using c by (simp add: s canonical_mac_def hex_pair_def upt_rec)
  then show "\<exists>gs. list_all hex_pair gs \<and> length gs = 6 \<and> s = join_colon gs" by blast
next
  assume "\<exists>gs. list_all hex_pair gs \<and> length gs = 6 \<and> s = join_colon gs"
  then obtain gs where "list_all hex_pair gs" "length gs = Suc (Suc (Suc (Suc (Suc (Suc 0)))))"
    and s: "s = join_colon gs" by auto
  then obtain g1 g2 g3 g4 g5 g6 where gs: "gs = [g1, g2, g3, g4, g5, g6]"
    unfolding length_Suc_conv by auto
  have pair: "hex_pair g \<Longrightarrow> \<exists>a b. g = [a, b] \<and> lower_hex a \<and> lower_hex b" for g
    by (cases g; cases "tl g") (auto simp: hex_pair_def)
  show "canonical_mac s"
    using \<open>list_all hex_pair gs\<close> unfolding s gs
    by (auto dest!: pair simp: canonical_mac_def upt_rec)
qed

lemma good_group_chars: "good_group g \<Longrightarrow> c \<in> set g \<Longrightarrow> \<not> is_sep c \<and> \<not> isspace c"
  using sep_class isxdigit_not_space by (auto simp: good_group_def list_all_iff)

lemma split_groups_append:
  "\<forall>c \<in> set g. \<not> is_sep c \<Longrightarrow> split_groups (g @ CHR '':'' # s) = g # split_groups s"
  by (induction g) (auto simp: is_sep_def)

lemma split_groups_single: "\<forall>c \<in> set g. \<not> is_sep c \<Longrightarrow> split_groups g = [g]"
  by (induction g) auto

lemma split_groups_join:
  "gs \<noteq> [] \<Longrightarrow> list_all good_group gs \<Longrightarrow>
   split_groups (filter (\<lambda>c. \<not> isspace c) (join_colon gs)) = gs"
proof (induction gs rule: join_colon.induct)
  case (2 g)
  then have "filter (\<lambda>c. \<not> isspace c) g = g"
    using good_group_chars by (intro filter_True) auto
  with 2 show ?case using good_group_chars by (simp add: split_groups_single)
next
  case (3 g h gs)
  then have "filter (\<lambda>c. \<not> isspace c) g = g"
    using good_group_chars by (intro filter_True) auto
  moreover have "\<forall>c \<in> set g. \<not> is_sep c" using 3(3) good_group_chars by auto
  ultimately show ?case using 3 by (simp add: split_groups_append)
qed simp

lemma hex_pair_good: "hex_pair g \<Longrightarrow> good_group g \<and> norm_group g = g"
  using lower_hex_isxdigit tolower_lower_hex
  by (auto simp: hex_pair_def good_group_def norm_group_def list_all_iff map_idI)

lemma reference_join:
  assumes "list_all good_group gs" "length gs = 6"
  shows "mac_reference (join_colon gs) = Some (join_colon (List.map norm_group gs))"
proof -
  from assms(2) have ne: "gs \<noteq> []" by auto
  then have "good_group (last gs)" using assms(1) by (simp add: list_all_iff)
  then have "last gs \<noteq> []" by (auto simp: good_group_def)
  then have "drop_last_empty gs = gs" by (simp add: drop_last_empty_def)
  with assms ne show ?thesis by (simp add: mac_reference_def split_groups_join)
qed

lemma mac_normalize_canonical: "np_mac_normalize s = Some m \<Longrightarrow> canonical_mac m"
  unfolding canonical_groups np_mac_normalize_reference mac_reference_def Let_def
  by (auto simp: list_all_iff hex_pair_norm_group split: if_splits
      intro!: exI [of _ "List.map norm_group _"])

lemma mac_normalize_fixed: "canonical_mac m \<Longrightarrow> np_mac_normalize m = Some m"
proof -
  assume "canonical_mac m"
  then obtain gs where gs: "list_all hex_pair gs" "length gs = 6" "m = join_colon gs"
    unfolding canonical_groups by blast
  have g: "list_all good_group gs" using gs(1) hex_pair_good by (auto simp: list_all_iff)
  have "List.map norm_group gs = gs" using gs(1) hex_pair_good by (auto simp: list_all_iff map_idI)
  with reference_join [OF g gs(2)] gs(3) show ?thesis
    by (simp add: np_mac_normalize_reference)
qed


section \<open>The interface the other components use\<close>

text \<open>A byte that no shell gives a meaning to.\<close>

definition shell_inert :: "char \<Rightarrow> bool" where
  "shell_inert c = (lower_hex c \<or> c = CHR '':'')"

locale mac_interface =
  fixes norm :: "string \<Rightarrow> string option"
  assumes canonical: "norm s = Some m \<Longrightarrow> canonical_mac m"
    and fixed: "canonical_mac m \<Longrightarrow> norm m = Some m"
begin

lemma idempotent: "norm s = Some m \<Longrightarrow> norm m = Some m"
  using canonical fixed by blast

lemma length_17: "norm s = Some m \<Longrightarrow> length m = 17"
  using canonical by (simp add: canonical_mac_def)

lemma inert: "norm s = Some m \<Longrightarrow> list_all shell_inert m"
proof -
  assume "norm s = Some m"
  then have c: "canonical_mac m" by (rule canonical)
  then have l: "length m = 17" by (simp add: canonical_mac_def)
  show "list_all shell_inert m"
    unfolding list_all_length
  proof (intro allI impI)
    fix i
    assume i: "i < length m"
    with l have "i \<in> set [0..<17]" by simp
    with c have "if i mod 3 = 2 then m ! i = CHR '':'' else lower_hex (m ! i)"
      unfolding canonical_mac_def list_all_iff by blast
    then show "shell_inert (m ! i)" by (auto simp: shell_inert_def split: if_splits)
  qed
qed

lemma nul_free: "norm s = Some m \<Longrightarrow> nul_free m"
  using inert lower_hex_not_NUL by (fastforce simp: nul_free_def list_all_iff shell_inert_def)

lemma fixed_iff: "norm m = Some m \<longleftrightarrow> canonical_mac m"
  using canonical fixed by blast

end

interpretation mac: mac_interface np_mac_normalize
  by unfold_locales (auto intro: mac_normalize_canonical mac_normalize_fixed)

text \<open>The spellings of an address: capitals and dashes stand for lower case and colons.\<close>

definition mac_fold :: "char \<Rightarrow> char" where
  "mac_fold c = (if c = CHR ''-'' then CHR '':'' else tolower c)"

lemma capital_table:
  "list_all (\<lambda>c. \<not> is_sep (tolower c) \<and> \<not> is_sep c \<and> \<not> isspace (tolower c) \<and> \<not> isspace c \<and>
     isxdigit (tolower c) = isxdigit c) (List.map char_of [65..<(91::nat)])"
  by code_simp

lemma tolower_classes:
  "is_sep (tolower c) = is_sep c \<and> isspace (tolower c) = isspace c \<and>
   isxdigit (tolower c) = isxdigit c"
proof (cases "tolower c = c")
  case False
  from capital_table tolower_capital [OF False] show ?thesis
    unfolding list_all_iff by blast
qed simp

lemma mac_fold_classes:
  "is_sep (mac_fold c) = is_sep c \<and> isspace (mac_fold c) = isspace c \<and>
   isxdigit (mac_fold c) = isxdigit c \<and> (isxdigit c \<longrightarrow> mac_fold c = tolower c)"
proof (cases "c = CHR ''-''")
  case False
  then show ?thesis using tolower_classes by (simp add: mac_fold_def)
qed (simp add: mac_fold_def is_sep_def)

lemma split_groups_fold: "split_groups (List.map mac_fold s) = List.map (List.map mac_fold) (split_groups s)"
  by (induction s) (auto simp: mac_fold_classes map_tl hd_map)

lemma norm_group_fold:
  "good_group (List.map mac_fold g) = good_group g"
  "good_group g \<Longrightarrow> norm_group g = norm_group (List.map mac_fold g)"
proof -
  show "good_group (List.map mac_fold g) = good_group g"
    by (auto simp: good_group_def list_all_iff mac_fold_classes)
  assume "good_group g"
  then have "List.map tolower (List.map mac_fold g) = List.map tolower g"
    using mac_fold_classes lower_hex_tolower tolower_lower_hex
    by (auto simp: good_group_def list_all_iff)
  then show "norm_group g = norm_group (List.map mac_fold g)"
    by (simp add: norm_group_def)
qed

lemma mac_reference_fold: "mac_reference (List.map mac_fold s) = mac_reference s"
proof -
  have f: "filter (\<lambda>c. \<not> isspace c) (List.map mac_fold s)
      = List.map mac_fold (filter (\<lambda>c. \<not> isspace c) s)"
    by (induction s) (auto simp: mac_fold_classes)
  have d: "drop_last_empty (List.map (List.map mac_fold) gs)
      = List.map (List.map mac_fold) (drop_last_empty gs)" for gs
    by (auto simp: drop_last_empty_def last_map map_butlast)
  have n: "list_all good_group gs \<Longrightarrow>
      List.map norm_group (List.map (List.map mac_fold) gs) = List.map norm_group gs" for gs
    by (induction gs) (auto simp: norm_group_fold(2) [symmetric])
  have g: "list_all good_group (List.map (List.map mac_fold) gs) = list_all good_group gs" for gs
    by (simp add: list_all_iff norm_group_fold(1))
  show ?thesis
    by (simp add: mac_reference_def f split_groups_fold d g Let_def n del: map_map)
qed


section \<open>Properties\<close>

text \<open>
  C5: \<open>np_mac_normalize\<close> computes the reference: it accepts a text exactly when, white space
  removed, it splits at colons and dashes into six groups of one or two hex digits (a separator after
  the sixth is allowed), and returns the groups in lower case, padded, joined by colons.
\<close>

theorem mac_normalize_spec: "np_mac_normalize s = mac_reference s"
  by (rule np_mac_normalize_reference)

text \<open>
  C10: memory safety. For every input, with a two-byte digit buffer and an output buffer of at least 18
  bytes, no write leaves the buffers, the output buffer keeps its size, and the outcome does not depend
  on what the buffers held before: it is the one of \<open>np_mac_normalize\<close>.
\<close>

theorem mac_normalize_memory_safe:
  assumes "length hex0 = 2" "18 \<le> length out"
  shows "np_mac_normalize_buf hex0 (Some s) (Some out) \<noteq> Overrun \<and>
    (case np_mac_normalize_buf hex0 (Some s) (Some out) of
       Go buf \<Rightarrow> length buf = length out \<and> np_mac_normalize s = Some (c_str buf)
     | _ \<Rightarrow> np_mac_normalize s = None)"
proof -
  from mac_buf_outcome [OF assms, of s]
  have o: "mac_outcome (length out) (mac_abs [] [] s) (np_mac_normalize_buf hex0 (Some s) (Some out))" .
  have r: "np_mac_normalize s = map_option join_colon (mac_abs [] [] s)"
    by (simp add: np_mac_normalize_reference mac_abs_is_reference)
  show ?thesis
    using o unfolding r by (cases "mac_abs [] [] s") (auto simp: mac_outcome_def)
qed

theorem mac_normalize_memory_safe_witness:
  "np_mac_normalize_buf ''zz'' (Some ''A:b:0C:d:e:F-:'') (Some (replicate 18 CHR ''x'')) \<noteq> Overrun"
  using mac_normalize_memory_safe [of "''zz''" "replicate 18 CHR ''x''" "''A:b:0C:d:e:F-:''"] by simp

text \<open>
  The results are exactly the canonical addresses (17 bytes, lower-case pairs joined by colons),
  and normalising a canonical address changes nothing.
\<close>

lemma mac_normalize_range:
  "(canonical_mac m \<longleftrightarrow> np_mac_normalize m = Some m) \<and>
   (canonical_mac m \<longleftrightarrow> (\<exists>s. np_mac_normalize s = Some m))"
  using mac.canonical mac.fixed_iff by blast

text \<open>
  Every spelling of a canonical address, in either case and with dashes or colons, normalises
  to it.
\<close>

lemma mac_normalize_spelling:
  assumes "canonical_mac (List.map mac_fold s)"
  shows "np_mac_normalize s = Some (List.map mac_fold s)"
  using mac.fixed [OF assms] by (simp add: np_mac_normalize_reference mac_reference_fold)

end
