(* ===== verification/Nft.thy ===== *)
theory Nft
  imports Log Mac
begin

text \<open>
  The component \<open>src/src/nft.c\<close>: the commands the daemon hands to the shell, the table set-up,
  blocking and unblocking, the membership query and the listing with its 4096-byte buffer and its
  pattern scan. The shell and the \<open>nft\<close> binary are outside: \<open>e_popen\<close> and
  \<open>e_system\<close> of the environment answer for them.
\<close>

section \<open>Running nft\<close>

text \<open>The last line of the output, its newline removed, as the read loop leaves it.\<close>

definition chomp :: "string \<Rightarrow> string" where
  "chomp s = (if s \<noteq> [] \<and> last s = NL then butlast s else s)"

function last_err :: "string \<Rightarrow> string \<Rightarrow> string" where
  "last_err acc s = (case fgets 256 s of
      None \<Rightarrow> acc
    | Some (l, r) \<Rightarrow> last_err (chomp (c_str l)) r)"
  by pat_completeness auto
termination
  by (relation "measure (\<lambda>(acc, s). length s)") (auto dest: fgets_progress)

declare last_err.simps [simp del]

text \<open>\<open>args\<close> is the formatted text; \<open>vsnprintf\<close> returns its length.\<close>

definition run_nft :: "env \<Rightarrow> string \<Rightarrow> int np" where
  "run_nft E args =
     (if length args \<ge> 768 then do { LOG_ERR E ''nft command too long'' []; ret (-1) }
      else do {
        let cmd = snprintf 1024 ''nft %s 2>&1'' [args];
        LOG_DBG E ''exec: %s'' [cmd];
        fp \<leftarrow> ask (e_popen E) (Popen_read cmd);
        case fp of
          None \<Rightarrow> do { LOG_ERR E ''popen failed: %s'' [cmd]; ret (-1) }
        | Some (out, rc) \<Rightarrow> do {
            (if rc \<noteq> 0 \<and> last_err [] out \<noteq> []
            then LOG_DBG E ''nft stderr: %s'' [last_err [] out] else ret ());
            ret rc }
      })"


section \<open>Set-up\<close>

definition nft_script :: "string \<Rightarrow> string \<Rightarrow> string" where
  "nft_script table nset = snprintf 1024
     (''add table %s'' @ [NL] @
      ''add set %s %s { type ether_addr; flags interval; }'' @ [NL] @
      ''add chain %s netparent_fwd { type filter hook forward priority filter; policy accept; }'' @ [NL])
     [table, table, nset, table]"

definition np_nft_ensure :: "env \<Rightarrow> string \<Rightarrow> string \<Rightarrow> int np" where
  "np_nft_ensure E table nset = do {
     fp \<leftarrow> ask (e_popen E) (Popen_write ''nft -f - 2>&1'' (nft_script table nset));
     case fp of
       None \<Rightarrow> do { LOG_ERR E ''popen nft failed'' []; ret (-1) }
     | Some (_, rc) \<Rightarrow> do {
         (if rc \<noteq> 0
          then LOG_WARN E ''nft initial ensure returned %d (may be benign if already present)''
                 [show_int rc]
          else ret ());
         r1 \<leftarrow> run_nft E (format ''flush chain %s netparent_fwd'' [table]);
         (if r1 \<noteq> 0 then LOG_WARN E ''flush chain failed (chain may not exist yet)'' [] else ret ());
         r2 \<leftarrow> run_nft E (format ''add rule %s netparent_fwd ether saddr @%s counter drop''
                             [table, nset]);
         if r2 \<noteq> 0 then do { LOG_ERR E ''failed to add saddr drop rule'' []; ret (-1) }
         else do {
           r3 \<leftarrow> run_nft E (format ''add rule %s netparent_fwd ether daddr @%s counter drop''
                               [table, nset]);
           if r3 \<noteq> 0 then do { LOG_ERR E ''failed to add daddr drop rule'' []; ret (-1) }
           else do { LOG_INFO E ''nftables ready: table=%s set=%s'' [table, nset]; ret 0 } } }
   }"


section \<open>Blocking and queries\<close>

definition np_nft_block :: "env \<Rightarrow> string \<Rightarrow> string \<Rightarrow> string \<Rightarrow> int np" where
  "np_nft_block E table nset mac = (case np_mac_normalize mac of
      None \<Rightarrow> ret (-1)
    | Some nrm \<Rightarrow> do {
        rc \<leftarrow> run_nft E (format ''add element %s %s { %s }'' [table, nset, nrm]);
        (if rc = 0 then LOG_INFO E ''blocked MAC %s'' [nrm] else ret ());
        ret rc })"

definition np_nft_unblock :: "env \<Rightarrow> string \<Rightarrow> string \<Rightarrow> string \<Rightarrow> int np" where
  "np_nft_unblock E table nset mac = (case np_mac_normalize mac of
      None \<Rightarrow> ret (-1)
    | Some nrm \<Rightarrow> do {
        rc \<leftarrow> run_nft E (format ''delete element %s %s { %s }'' [table, nset, nrm]);
        (if rc \<noteq> 0
        then LOG_DBG E ''delete element returned %d (likely not present)'' [show_int rc]
        else ret ());
        LOG_INFO E ''unblocked MAC %s'' [nrm];
        ret 0 })"

definition np_nft_is_blocked :: "env \<Rightarrow> string \<Rightarrow> string \<Rightarrow> string \<Rightarrow> int np" where
  "np_nft_is_blocked E table nset mac = (case np_mac_normalize mac of
      None \<Rightarrow> ret (-1)
    | Some nrm \<Rightarrow> do {
        let cmd = snprintf 256 ''nft get element %s %s { %s } >/dev/null 2>&1''
                    [table, nset, nrm];
        rc \<leftarrow> ask (e_system E) (System cmd);
        ret (if rc = -1 then -1 else if rc = 0 then 1 else 0) })"


section \<open>Listing\<close>

text \<open>
  The read loop: \<open>acc\<close> is \<open>buf[0 .. total)\<close>, \<open>s\<close> the unread output. \<open>fgets\<close> is
  called before \<open>total\<close> is compared, as in the source.
\<close>

function nft_fill :: "string \<Rightarrow> string \<Rightarrow> string" where
  "nft_fill acc s = (case fgets (4096 - length acc) s of
      None \<Rightarrow> acc
    | Some (l, r) \<Rightarrow> if length acc < 4095 then nft_fill (acc @ c_str l) r else acc)"
  by pat_completeness auto
termination
  by (relation "measure (\<lambda>(acc, s). length s)") (auto dest: fgets_progress)

declare nft_fill.simps [simp del]

text \<open>The pattern test at one position, character by character.\<close>

definition mac_at :: "string \<Rightarrow> bool" where
  "mac_at p = (isxdigit (p ! 0) \<and> isxdigit (p ! 1) \<and> p ! 2 = CHR '':'' \<and>
     isxdigit (p ! 3) \<and> isxdigit (p ! 4) \<and> p ! 5 = CHR '':'' \<and>
     isxdigit (p ! 6) \<and> isxdigit (p ! 7) \<and> p ! 8 = CHR '':'' \<and>
     isxdigit (p ! 9) \<and> isxdigit (p ! 10) \<and> p ! 11 = CHR '':'' \<and>
     isxdigit (p ! 12) \<and> isxdigit (p ! 13) \<and> p ! 14 = CHR '':'' \<and>
     isxdigit (p ! 15) \<and> isxdigit (p ! 16))"

text \<open>
  The walk over the buffer, on the suffix that starts at \<open>i\<close>: it goes on while 17 bytes are left,
  and after a match it resumes behind it.
\<close>

function scan_macs :: "string \<Rightarrow> string list" where
  "scan_macs s = (if length s \<le> 16 then []
     else if mac_at s then List.map tolower (take 17 s) # scan_macs (drop 17 s)
     else scan_macs (drop 1 s))"
  by pat_completeness auto
termination
  by (relation "measure length") auto

declare scan_macs.simps [simp del]

definition np_nft_list ::
  "env \<Rightarrow> string \<Rightarrow> string \<Rightarrow> (string \<Rightarrow> 'u \<Rightarrow> 'u np) \<Rightarrow> 'u \<Rightarrow> (int \<times> 'u) np" where
  "np_nft_list E table nset cb user = do {
     let cmd = snprintf 256 ''nft -j list set %s %s 2>/dev/null'' [table, nset];
     fp \<leftarrow> ask (e_popen E) (Popen_read cmd);
     case fp of
       None \<Rightarrow> ret (-1, user)
     | Some (out, _) \<Rightarrow> do {
         user' \<leftarrow> fold_np cb (scan_macs (nft_fill [] out)) user;
         ret (0, user') }
   }"


section \<open>Commands as data\<close>

definition add_args :: "string \<Rightarrow> string \<Rightarrow> string \<Rightarrow> string" where
  "add_args table nset m = format ''add element %s %s { %s }'' [table, nset, m]"

definition delete_args :: "string \<Rightarrow> string \<Rightarrow> string \<Rightarrow> string" where
  "delete_args table nset m = format ''delete element %s %s { %s }'' [table, nset, m]"

definition nft_cmd :: "string \<Rightarrow> string" where
  "nft_cmd args = format ''nft %s 2>&1'' [args]"

definition get_cmd :: "string \<Rightarrow> string \<Rightarrow> string \<Rightarrow> string" where
  "get_cmd table nset m =
     snprintf 256 ''nft get element %s %s { %s } >/dev/null 2>&1'' [table, nset, m]"

definition list_cmd :: "string \<Rightarrow> string \<Rightarrow> string" where
  "list_cmd table nset = snprintf 256 ''nft -j list set %s %s 2>/dev/null'' [table, nset]"

definition nft_rc :: "(string \<times> int) option \<Rightarrow> int" where
  "nft_rc r = (case r of None \<Rightarrow> -1 | Some (_, rc) \<Rightarrow> rc)"

lemma nft_cmd_text: "nft_cmd args = ''nft '' @ args @ '' 2>&1''"
  by (simp add: nft_cmd_def format.simps)

lemma nft_cmd_fits: "length args < 768 \<Longrightarrow> snprintf 1024 ''nft %s 2>&1'' [args] = nft_cmd args"
  unfolding nft_cmd_def by (rule snprintf_fits) (simp add: format.simps)

text \<open>
  The effect of \<open>run_nft\<close>: a command is issued exactly when the arguments fit, and the result is
  nft's status.
\<close>

definition nft_answer :: "env \<Rightarrow> sys \<Rightarrow> string \<Rightarrow> (string \<times> int) option" where
  "nft_answer E s args = e_popen E (sy_trace s
     @ log_calls E NP_LOG_DBG (format ''exec: %s'' [nft_cmd args]) s @ [Popen_read (nft_cmd args)])"

lemma run_nft_cases:
  "\<exists>u. run_state (run_nft E args) s =
     (if length args < 768
      then (nft_rc (nft_answer E s args), s\<lparr>sy_trace := sy_trace s
              @ log_calls E NP_LOG_DBG (format ''exec: %s'' [nft_cmd args]) s
              @ [Popen_read (nft_cmd args)] @ u\<rparr>)
      else (-1, s\<lparr>sy_trace := sy_trace s @ u\<rparr>)) \<and> list_all is_log u"
proof (cases "length args < 768")
  case False
  then show ?thesis
    by (auto simp: run_nft_def run_np_log(2))
next
  case True
  then have cmd: "snprintf 1024 ''nft %s 2>&1'' [args] = nft_cmd args" by (rule nft_cmd_fits)
  show ?thesis
  proof (cases "nft_answer E s args")
    case None
    with True show ?thesis
      by (auto simp: run_nft_def cmd nft_rc_def nft_answer_def run_np_log(2) Let_def)
  next
    case (Some a)
    obtain out rc where a: "a = (out, rc)" by force
    show ?thesis
    proof (cases "rc \<noteq> 0 \<and> last_err [] out \<noteq> []")
      case True
      with \<open>length args < 768\<close> Some a show ?thesis
        by (auto simp: run_nft_def cmd nft_rc_def nft_answer_def run_np_log(2) Let_def)
    next
      case False
      with \<open>length args < 768\<close> Some a show ?thesis
        by (auto simp: run_nft_def cmd nft_rc_def nft_answer_def Let_def intro: exI [of _ "[]"])
    qed
  qed
qed


section \<open>What the operations do to the world\<close>

text \<open>
  The only non-logging calls of this component once the table exists: a command for one canonical
  address, or the listing.
\<close>

definition nft_action :: "string \<Rightarrow> string \<Rightarrow> call \<Rightarrow> bool" where
  "nft_action table nset c \<longleftrightarrow> is_log c \<or> c = Popen_read (list_cmd table nset) \<or>
     (\<exists>m. canonical_mac m \<and> (c = Popen_read (nft_cmd (add_args table nset m)) \<or>
        c = Popen_read (nft_cmd (delete_args table nset m)) \<or> c = System (get_cmd table nset m)))"

lemma emits_run_nft:
  assumes "P (Popen_read (nft_cmd args))" "\<And>c. is_log c \<Longrightarrow> P c"
  shows "emits P (run_nft E args)"
  unfolding run_nft_def Let_def
  using assms nft_cmd_fits [of args] by (auto intro!: emits_rules)

lemma nft_actionI:
  "is_log c \<Longrightarrow> nft_action table nset c"
  "nft_action table nset (Popen_read (list_cmd table nset))"
  "np_mac_normalize mac = Some m \<Longrightarrow> nft_action table nset (Popen_read (nft_cmd (add_args table nset m)))"
  "np_mac_normalize mac = Some m \<Longrightarrow>
     nft_action table nset (Popen_read (nft_cmd (delete_args table nset m)))"
  "np_mac_normalize mac = Some m \<Longrightarrow> nft_action table nset (System (get_cmd table nset m))"
  using mac.canonical by (auto simp: nft_action_def)

text \<open>The calls that only read: the listing and the queries.\<close>

definition nft_query :: "string \<Rightarrow> string \<Rightarrow> call \<Rightarrow> bool" where
  "nft_query table nset c \<longleftrightarrow> is_log c \<or> c = Popen_read (list_cmd table nset) \<or>
     (\<exists>m. canonical_mac m \<and> c = System (get_cmd table nset m))"

lemma nft_queryI:
  "is_log c \<Longrightarrow> nft_query table nset c"
  "nft_query table nset (Popen_read (list_cmd table nset))"
  "np_mac_normalize mac = Some m \<Longrightarrow> nft_query table nset (System (get_cmd table nset m))"
  using mac.canonical by (auto simp: nft_query_def)

lemma nft_query_action: "nft_query table nset c \<Longrightarrow> nft_action table nset c"
  by (auto simp: nft_query_def nft_action_def)

lemma emits_block: "emits (nft_action table nset) (np_nft_block E table nset mac)"
  unfolding np_nft_block_def add_args_def [symmetric]
  by (intro emits_rules emits_run_nft) (auto intro: nft_actionI)

lemma emits_unblock: "emits (nft_action table nset) (np_nft_unblock E table nset mac)"
  unfolding np_nft_unblock_def delete_args_def [symmetric]
  by (intro emits_rules emits_run_nft) (auto intro: nft_actionI)

lemma emits_is_blocked_query: "emits (nft_query table nset) (np_nft_is_blocked E table nset mac)"
  unfolding np_nft_is_blocked_def get_cmd_def [symmetric] Let_def
  by (intro emits_rules) (auto intro: nft_queryI)

lemma emits_is_blocked: "emits (nft_action table nset) (np_nft_is_blocked E table nset mac)"
  by (rule emits_mono [OF emits_is_blocked_query nft_query_action])

lemma emits_list:
  assumes "\<And>m u. canonical_mac m \<Longrightarrow> emits P (cb m u)" and "P (Popen_read (list_cmd table nset))"
    and macs: "\<And>s. list_all canonical_mac (scan_macs s)"
  shows "emits P (np_nft_list E table nset cb u)"
  unfolding np_nft_list_def list_cmd_def [symmetric] Let_def
  using assms(1,2) macs by (auto intro!: emits_rules simp: list_all_iff)

text \<open>\<open>issues_only P m\<close>: every command line \<open>m\<close> hands to the shell satisfies \<open>P\<close>.\<close>

definition issues_only :: "(string \<Rightarrow> bool) \<Rightarrow> 'a np \<Rightarrow> bool" where
  "issues_only P m = emits (\<lambda>c. list_all P (shell_of c)) m"

definition safe_nft_command :: "string \<Rightarrow> string \<Rightarrow> string \<Rightarrow> bool" where
  "safe_nft_command table nset cmd \<longleftrightarrow> cmd = take 255 (''nft -j list set '' @ table @ '' '' @ nset @ '' 2>/dev/null'') \<or>
     (\<exists>m. list_all shell_inert m \<and> length m = 17 \<and>
       (cmd = ''nft add element '' @ table @ '' '' @ nset @ '' { '' @ m @ '' } 2>&1'' \<or>
        cmd = ''nft delete element '' @ table @ '' '' @ nset @ '' { '' @ m @ '' } 2>&1'' \<or>
        cmd = take 255 (''nft get element '' @ table @ '' '' @ nset @ '' { '' @ m
                        @ '' } >/dev/null 2>&1'')))"

lemma command_texts:
  "nft_cmd (add_args table nset m) = ''nft add element '' @ table @ '' '' @ nset @ '' { '' @ m @ '' } 2>&1''"
  "nft_cmd (delete_args table nset m) =
     ''nft delete element '' @ table @ '' '' @ nset @ '' { '' @ m @ '' } 2>&1''"
  "get_cmd table nset m =
     take 255 (''nft get element '' @ table @ '' '' @ nset @ '' { '' @ m @ '' } >/dev/null 2>&1'')"
  "list_cmd table nset = take 255 (''nft -j list set '' @ table @ '' '' @ nset @ '' 2>/dev/null'')"
  by (simp_all add: nft_cmd_text add_args_def delete_args_def get_cmd_def list_cmd_def snprintf_def
      format.simps)

lemma nft_action_safe: "nft_action table nset c \<Longrightarrow> list_all (safe_nft_command table nset) (shell_of c)"
proof -
  assume "nft_action table nset c"
  then consider "is_log c" | "c = Popen_read (list_cmd table nset)"
    | m where "canonical_mac m" "c = Popen_read (nft_cmd (add_args table nset m))"
    | m where "canonical_mac m" "c = Popen_read (nft_cmd (delete_args table nset m))"
    | m where "canonical_mac m" "c = System (get_cmd table nset m)"
    unfolding nft_action_def by blast
  moreover have "canonical_mac m \<Longrightarrow> list_all shell_inert m \<and> length m = 17" for m
    using mac.fixed mac.inert mac.length_17 by blast
  ultimately show ?thesis
    by cases (auto simp only: is_log_shell shell_of.simps list.pred_inject safe_nft_command_def command_texts)
qed

lemma nft_action_issues:
  "emits (nft_action table nset) m \<Longrightarrow> issues_only (safe_nft_command table nset) m"
  unfolding issues_only_def by (erule emits_mono) (rule nft_action_safe)

definition flush_args :: "string \<Rightarrow> string" where
  "flush_args table = format ''flush chain %s netparent_fwd'' [table]"

definition rule_args :: "string \<Rightarrow> string \<Rightarrow> string \<Rightarrow> string" where
  "rule_args field table nset =
     format (''add rule %s netparent_fwd ether '' @ field @ '' @%s counter drop'') [table, nset]"

lemma rule_args_text:
  "rule_args ''saddr'' table nset = format ''add rule %s netparent_fwd ether saddr @%s counter drop'' [table, nset]"
  "rule_args ''daddr'' table nset = format ''add rule %s netparent_fwd ether daddr @%s counter drop'' [table, nset]"
  by (simp_all add: rule_args_def)

text \<open>\<open>answered E t cmd rc\<close>: the trace \<open>t\<close> holds an issue of \<open>cmd\<close> that had status \<open>rc\<close>.\<close>

definition answered :: "env \<Rightarrow> history \<Rightarrow> string \<Rightarrow> int \<Rightarrow> bool" where
  "answered E t cmd rc \<longleftrightarrow>
     (\<exists>h u. t = h @ [Popen_read cmd] @ u \<and> nft_rc (e_popen E (h @ [Popen_read cmd])) = rc)"

lemma answered_append: "answered E t cmd rc \<Longrightarrow> answered E (t @ u) cmd rc"
  unfolding answered_def by (metis append.assoc)

lemma run_optional_log:
  assumes "emits is_log m"
  obtains l where "run_state m s = ((), s\<lparr>sy_trace := sy_trace s @ l\<rparr>)" "visible l = []"
proof -
  obtain s' where r: "run_state m s = ((), s')" by (cases "run_state m s") auto
  with emitsE [OF assms r] that show thesis by (metis visible_all_log)
qed

lemma run_nftE:
  obtains u rc where "run_state (run_nft E args) s = (rc, s\<lparr>sy_trace := sy_trace s @ u\<rparr>)"
    "visible u = (if length args < 768 then [Popen_read (nft_cmd args)] else [])"
    "length args < 768 \<Longrightarrow> answered E (sy_trace s @ u) (nft_cmd args) rc"
    "\<not> length args < 768 \<Longrightarrow> rc = -1"
    "length args < 768 \<Longrightarrow> rc = nft_rc (nft_answer E s args)"
proof -
  let ?l = "log_calls E NP_LOG_DBG (format ''exec: %s'' [nft_cmd args]) s"
  obtain u where u: "run_state (run_nft E args) s =
     (if length args < 768
      then (nft_rc (nft_answer E s args),
            s\<lparr>sy_trace := sy_trace s @ ?l @ [Popen_read (nft_cmd args)] @ u\<rparr>)
      else (-1, s\<lparr>sy_trace := sy_trace s @ u\<rparr>))" "list_all is_log u"
    using run_nft_cases by blast
  show thesis
  proof (cases "length args < 768")
    case True
    then have "answered E (sy_trace s @ ?l @ [Popen_read (nft_cmd args)] @ u) (nft_cmd args)
        (nft_rc (nft_answer E s args))"
      unfolding answered_def nft_answer_def
      by (intro exI [of _ "sy_trace s @ ?l"] exI [of _ u]) simp
    with True u that show thesis by (simp add: visible_simps)
  next
    case False
    with u that show thesis by (simp add: visible_simps)
  qed
qed


section \<open>The listing buffer and the scan\<close>

lemma nft_fill_bound: "length acc \<le> 4095 \<Longrightarrow> length (nft_fill acc s) \<le> 4095"
proof (induction acc s rule: nft_fill.induct)
  case (1 acc s)
  have "length (c_str l) \<le> 4095 - length acc" if "fgets (4096 - length acc) s = Some (l, r)" for l r
    using fgets_length [OF that] length_takeWhile_le [of "\<lambda>c. c \<noteq> NUL" l]
    by (simp add: c_str_def)
  with 1 show ?case
    by (subst nft_fill.simps) (fastforce split: option.splits)
qed

lemma nft_fill_take:
  "nul_free s \<Longrightarrow> length acc \<le> 4095 \<Longrightarrow> nft_fill acc s = acc @ take (4095 - length acc) s"
proof (induction acc s rule: nft_fill.induct)
  case (1 acc s)
  show ?case
  proof (cases "length acc < 4095 \<and> s \<noteq> []")
    case False
    with 1(3) show ?thesis
      by (subst nft_fill.simps) (auto simp: fgets_def Let_def split: option.splits)
  next
    case True
    then obtain l r where f: "fgets (4096 - length acc) s = Some (l, r)"
      using fgets_none [of "4096 - length acc" s] by fastforce
    have s: "s = l @ r" using fgets_append [OF f] .
    have l: "length l \<le> 4095 - length acc" using fgets_length [OF f] by simp
    have b: "length (acc @ l) \<le> 4095" using l True unfolding length_append by linarith
    have "c_str l = l" using 1(2) s by (auto simp: nul_free_def intro!: c_str_nul_free)
    with 1(1) [OF f refl] 1(2) True s b have ih: "nft_fill (acc @ l) r = (acc @ l) @ take (4095 - length (acc @ l)) r"
      by (simp add: nul_free_def)
    have "nft_fill acc s = nft_fill (acc @ l) r"
      using f True \<open>c_str l = l\<close> by (subst nft_fill.simps) simp
    with ih s l True show ?thesis by simp
  qed
qed

lemma isxdigit_iff_lower: "lower_hex (tolower c) = isxdigit c"
  using lower_hex_tolower lower_hex_isxdigit tolower_classes by blast

lemma tolower_colon: "(tolower c = CHR '':'') = (c = CHR '':'')"
proof (cases "tolower c = c")
  case False
  from capital_table tolower_capital [OF False] show ?thesis
    unfolding list_all_iff is_sep_def by blast
qed simp

lemma upt_17: "[0..<17] = [0, 1, 2, 3, 4, 5, 6, 7, 8, 9, 10, 11, 12, 13, 14, 15, 16 :: nat]"
  by code_simp

lemma mac_at_indices:
  "mac_at s = list_all (\<lambda>i. if i mod 3 = 2 then s ! i = CHR '':'' else isxdigit (s ! i)) [0..<17]"
  unfolding upt_17 mac_at_def by simp

lemma mac_at_canonical:
  assumes "17 \<le> length s"
  shows "mac_at s = canonical_mac (List.map tolower (take 17 s))"
  using assms
  by (auto simp: mac_at_indices canonical_mac_def list_all_iff isxdigit_iff_lower tolower_colon)

lemma mac_at_append: "17 \<le> length xs \<Longrightarrow> mac_at (xs @ r) = mac_at xs"
  by (simp add: mac_at_canonical)

lemma scan_macs_canonical: "list_all canonical_mac (scan_macs s)"
proof (induction s rule: scan_macs.induct)
  case (1 s)
  then show ?case
    by (subst scan_macs.simps) (auto simp: mac_at_canonical)
qed

lemma scan_macs_length: "17 * length (scan_macs s) \<le> length s"
proof (induction s rule: scan_macs.induct)
  case (1 s)
  consider "length s \<le> 16" | "\<not> length s \<le> 16" "mac_at s" | "\<not> length s \<le> 16" "\<not> mac_at s" by blast
  then show ?case
    by cases (use 1 in \<open>simp_all add: scan_macs.simps [of s]\<close>)
qed

definition delimiter :: "char \<Rightarrow> bool" where
  "delimiter c = (\<not> isxdigit c \<and> c \<noteq> CHR '':'')"

lemma mac_at_delimiter:
  assumes "i < 17" "delimiter (s ! i)"
  shows "\<not> mac_at s"
proof
  assume "mac_at s"
  with assms(1) have "if i mod 3 = 2 then s ! i = CHR '':'' else isxdigit (s ! i)"
    unfolding mac_at_indices list_all_iff by simp
  with assms(2) show False by (auto simp: delimiter_def split: if_splits)
qed

lemma scan_macs_short: "length s \<le> 16 \<Longrightarrow> scan_macs s = []"
  by (subst scan_macs.simps) simp

lemma scan_macs_skip: "\<not> mac_at (c # s) \<Longrightarrow> scan_macs (c # s) = scan_macs s"
  by (subst scan_macs.simps) (simp add: scan_macs_short)

lemma scan_macs_before:
  "length xs \<le> 16 \<Longrightarrow> delimiter c \<Longrightarrow> scan_macs (xs @ c # ys) = scan_macs ys"
proof (induction xs)
  case Nil
  then show ?case using mac_at_delimiter [of 0 "c # ys"] by (simp add: scan_macs_skip)
next
  case (Cons x xs)
  have "\<not> mac_at (x # xs @ c # ys)"
    by (rule mac_at_delimiter [of "length (x # xs)"]) (use Cons(2,3) in \<open>auto simp: nth_append\<close>)
  with Cons show ?case by (simp add: scan_macs_skip)
qed

lemma scan_macs_delimiter: "delimiter c \<Longrightarrow> scan_macs (c # ys) = scan_macs ys"
  using scan_macs_before [of "[]" c ys] by simp

lemma scan_macs_split:
  "delimiter c \<Longrightarrow> scan_macs (xs @ c # ys) = scan_macs xs @ scan_macs ys"
proof (induction xs rule: scan_macs.induct)
  case (1 xs)
  show ?case
  proof (cases "length xs \<le> 16")
    case True
    with 1 show ?thesis by (simp add: scan_macs_before scan_macs_short)
  next
    case False
    then have l: "17 \<le> length xs" "\<not> length (xs @ c # ys) \<le> 16" by simp_all
    show ?thesis
    proof (cases "mac_at xs")
      case True
      with 1 False l show ?thesis
        by (subst (1 2) scan_macs.simps) (simp add: mac_at_append)
    next
      case f: False
      with 1 False l show ?thesis
        by (subst (1 2) scan_macs.simps) (simp add: mac_at_append)
    qed
  qed
qed

lemma map_tolower_canonical: "canonical_mac m \<Longrightarrow> List.map tolower m = m"
proof -
  assume "canonical_mac m"
  then have "list_all shell_inert m" using mac.fixed mac.inert by blast
  moreover have "shell_inert c \<Longrightarrow> tolower c = c" for c
    using tolower_lower_hex tolower_colon [of c] by (auto simp: shell_inert_def)
  ultimately show ?thesis by (auto simp: list_all_iff intro: map_idI)
qed

lemma scan_macs_single: "canonical_mac m \<Longrightarrow> scan_macs m = [m]"
proof -
  assume c: "canonical_mac m"
  then have l: "length m = 17" by (simp add: canonical_mac_def)
  with c have "mac_at m" by (simp add: mac_at_canonical map_tolower_canonical)
  with c l show ?thesis
    by (subst scan_macs.simps) (simp add: map_tolower_canonical scan_macs_short)
qed

text \<open>
  The elements of a set as \<open>nft -j\<close> prints them: JSON strings with a comma and a space between two of
  them and none behind the last.
\<close>

definition quoted :: "string \<Rightarrow> string" where
  "quoted m = [CHR 0x22] @ m @ [CHR 0x22]"

fun json_strings :: "string list \<Rightarrow> string" where
  "json_strings [] = []"
| "json_strings [m] = quoted m"
| "json_strings (m # ms) = quoted m @ '', '' @ json_strings ms"

lemma quote_delimiter: "delimiter (CHR 0x22)" "delimiter (CHR '','')" "delimiter (CHR '' '')"
  by (simp_all add: delimiter_def isxdigit_def)

lemma scan_macs_quoted: "canonical_mac m \<Longrightarrow> scan_macs (xs @ quoted m @ ys) = scan_macs xs @ m # scan_macs ys"
  by (simp add: quoted_def scan_macs_split quote_delimiter scan_macs_single scan_macs_delimiter)

lemma json_strings_Cons: "json_strings (m # ms) = quoted m @ (if ms = [] then [] else '', '' @ json_strings ms)"
  by (cases ms) simp_all

lemma scan_macs_comma: "scan_macs ('', '' @ ys) = scan_macs ys"
  using scan_macs_split [OF quote_delimiter(2), of "[]" "CHR '' '' # ys"] scan_macs_split [OF quote_delimiter(3), of "[]" ys]
  by (simp add: scan_macs_short)

lemma scan_macs_listing:
  "list_all canonical_mac ms \<Longrightarrow>
   scan_macs (pre @ json_strings ms @ [CHR '']''] @ post) = scan_macs pre @ ms @ scan_macs post"
proof (induction ms arbitrary: pre)
  case Nil
  have "delimiter (CHR '']'')" by (simp add: delimiter_def isxdigit_def)
  then show ?case by (simp add: scan_macs_split)
next
  case (Cons m ms)
  let ?rest = "(if ms = [] then [] else '', '' @ json_strings ms) @ [CHR '']''] @ post"
  have "scan_macs ?rest = ms @ scan_macs post"
  proof (cases ms)
    case Nil
    have "delimiter (CHR '']'')" by (simp add: delimiter_def isxdigit_def)
    from scan_macs_split [OF this, of "[]" post] Nil show ?thesis by (simp add: scan_macs_short)
  next
    case (Cons m' ms')
    with scan_macs_comma [of "json_strings ms @ [CHR '']''] @ post"] Cons.IH [of "[]"] Cons.prems show ?thesis
      by (simp add: scan_macs_short)
  qed
  moreover have "scan_macs (pre @ quoted m @ ?rest) = scan_macs pre @ m # scan_macs ?rest"
    using Cons(2) by (intro scan_macs_quoted) simp
  ultimately show ?case by (simp add: json_strings_Cons del: append_Cons)
qed


section \<open>Properties\<close>

text \<open>
  C26: \<open>run_nft\<close> and its buffers. Arguments of 768 bytes or more never reach the shell and give
  -1; shorter ones are passed to the shell whole (the 1024-byte command buffer never truncates them),
  as one command, and the result is nft's status.
\<close>

theorem run_nft_bounded:
  "visible (sy_trace (snd (run_state (run_nft E args) s))) =
     visible (sy_trace s) @ (if length args < 768 then [Popen_read (''nft '' @ args @ '' 2>&1'')] else [])
   \<and> fst (run_state (run_nft E args) s) = (if length args < 768 then nft_rc (nft_answer E s args) else -1)"
proof -
  obtain u rc where "run_state (run_nft E args) s = (rc, s\<lparr>sy_trace := sy_trace s @ u\<rparr>)"
    "visible u = (if length args < 768 then [Popen_read (nft_cmd args)] else [])"
    "\<not> length args < 768 \<Longrightarrow> rc = -1" "length args < 768 \<Longrightarrow> rc = nft_rc (nft_answer E s args)"
    by (rule run_nftE [of E "args" s]) blast
  then show ?thesis by (simp add: visible_simps nft_cmd_text)
qed

text \<open>
  C27: \<open>np_nft_block\<close> on every branch: a text that is no MAC address gives -1 and no command;
  otherwise one command adds the normalised address to the set, and the result is its status.
\<close>

theorem nft_block_spec:
  "visible (sy_trace (snd (run_state (np_nft_block E table nset mac) s))) = visible (sy_trace s) @
     (case np_mac_normalize mac of None \<Rightarrow> []
      | Some m \<Rightarrow> if length (add_args table nset m) < 768
                   then [Popen_read (nft_cmd (add_args table nset m))] else [])
   \<and> fst (run_state (np_nft_block E table nset mac) s) =
     (case np_mac_normalize mac of None \<Rightarrow> -1
      | Some m \<Rightarrow> if length (add_args table nset m) < 768
                   then nft_rc (nft_answer E s (add_args table nset m)) else -1)"
proof (cases "np_mac_normalize mac")
  case None
  then show ?thesis by (simp add: np_nft_block_def)
next
  case (Some m)
  obtain u rc where "run_state (run_nft E (add_args table nset m)) s = (rc, s\<lparr>sy_trace := sy_trace s @ u\<rparr>)"
    "visible u = (if length (add_args table nset m) < 768
       then [Popen_read (nft_cmd (add_args table nset m))] else [])"
    "\<not> length (add_args table nset m) < 768 \<Longrightarrow> rc = -1"
    "length (add_args table nset m) < 768 \<Longrightarrow> rc = nft_rc (nft_answer E s (add_args table nset m))"
    by (rule run_nftE [of E "add_args table nset m" s]) blast
  with Some show ?thesis
    by (cases "length (add_args table nset m) < 768"; cases "rc = 0")
      (simp_all add: np_nft_block_def add_args_def [symmetric] visible_simps)
qed

text \<open>
  C28: \<open>np_nft_unblock\<close> succeeds for every text that is a MAC address, whatever nft answers,
  and fails exactly for the others, without a command.
\<close>

theorem nft_unblock_spec:
  "visible (sy_trace (snd (run_state (np_nft_unblock E table nset mac) s))) = visible (sy_trace s) @
     (case np_mac_normalize mac of None \<Rightarrow> []
      | Some m \<Rightarrow> if length (delete_args table nset m) < 768
                   then [Popen_read (nft_cmd (delete_args table nset m))] else [])
   \<and> fst (run_state (np_nft_unblock E table nset mac) s) =
     (if np_mac_normalize mac = None then -1 else 0)"
proof (cases "np_mac_normalize mac")
  case None
  then show ?thesis by (simp add: np_nft_unblock_def)
next
  case (Some m)
  obtain u rc where "run_state (run_nft E (delete_args table nset m)) s = (rc, s\<lparr>sy_trace := sy_trace s @ u\<rparr>)"
    "visible u = (if length (delete_args table nset m) < 768
       then [Popen_read (nft_cmd (delete_args table nset m))] else [])"
    by (rule run_nftE [of E "delete_args table nset m" s]) blast
  with Some show ?thesis
    by (cases "rc = 0") (simp_all add: np_nft_unblock_def delete_args_def [symmetric] visible_simps)
qed

text \<open>
  \<open>np_nft_is_blocked\<close>: -1 without a command for a text that is no MAC address; otherwise one
  query, 1 when the shell reports success, -1 when \<open>system\<close> itself fails and 0 for every other
  status.
\<close>

lemma nft_is_blocked_spec:
  "run_state (np_nft_is_blocked E table nset mac) s =
     (case np_mac_normalize mac of None \<Rightarrow> (-1, s)
      | Some m \<Rightarrow> let t = sy_trace s @ [System (get_cmd table nset m)]; rc = e_system E t
                  in (if rc = -1 then -1 else if rc = 0 then 1 else 0, s\<lparr>sy_trace := t\<rparr>))"
  by (simp add: np_nft_is_blocked_def get_cmd_def Let_def split: option.splits)

text \<open>
  C29: no shell injection through a MAC. Whatever text is passed as the address, every command that
  blocking, unblocking and the query hand to the shell is the code's template around the configured
  table and set names and 17 bytes that are lower-case hex digits and colons.
\<close>

theorem nft_commands_safe:
  "issues_only (safe_nft_command table nset) (np_nft_block E table nset mac) \<and>
   issues_only (safe_nft_command table nset) (np_nft_unblock E table nset mac) \<and>
   issues_only (safe_nft_command table nset) (np_nft_is_blocked E table nset mac)"
  using emits_block emits_unblock emits_is_blocked
  by (blast intro: nft_action_issues)

text \<open>
  The listing sees exactly the first 4095 bytes of nft's output (when it holds no NUL byte): the
  callback runs once for each address found there, in order, and the result is 0; without a pipe the
  result is -1 and the callback never runs.
\<close>

lemma nft_list_first_4095:
  assumes "case e_popen E (sy_trace s @ [Popen_read (list_cmd table nset)]) of
      None \<Rightarrow> True | Some (out, _) \<Rightarrow> nul_free out"
  shows "run_state (np_nft_list E table nset cb u) s =
    (let s' = s\<lparr>sy_trace := sy_trace s @ [Popen_read (list_cmd table nset)]\<rparr>
     in case e_popen E (sy_trace s') of
       None \<Rightarrow> ((-1, u), s')
     | Some (out, _) \<Rightarrow> apfst (\<lambda>u'. (0, u')) (run_state (fold_np cb (scan_macs (take 4095 out)) u) s'))"
  using assms nft_fill_take [of _ "[]"]
  by (auto simp add: np_nft_list_def list_cmd_def [symmetric] Let_def case_prod_beta prod_eq_iff
      split: option.splits)

text \<open>
  C30: what the scan reports of any buffer: canonical addresses only, at most 240 of them however many
  the set holds.
\<close>

theorem nft_list_sound_and_bounded:
  "list_all canonical_mac (scan_macs (nft_fill [] out)) \<and> length (scan_macs (nft_fill [] out)) \<le> 240"
proof -
  have "17 * length (scan_macs (nft_fill [] out)) \<le> 4095"
    using scan_macs_length [of "nft_fill [] out"] nft_fill_bound [of "[]" out] by simp
  then show ?thesis by (simp add: scan_macs_canonical)
qed

text \<open>
  C24: round trip. A listing as \<open>nft -j\<close> prints it that holds the addresses \<open>ms\<close> as its elements and
  fits in the buffer is read back as \<open>ms\<close>, in order, whatever surrounds them, as long as that holds
  no address itself.
\<close>

theorem nft_list_roundtrip:
  assumes "list_all canonical_mac ms" "scan_macs pre = []" "scan_macs post = []" "nul_free (pre @ post)"
    and "length (pre @ json_strings ms @ [CHR '']''] @ post) \<le> 4095"
  shows "scan_macs (nft_fill [] (pre @ json_strings ms @ [CHR '']''] @ post)) = ms"
proof -
  have "nul_free m" if "canonical_mac m" for m
    using that mac.fixed mac.nul_free by blast
  with assms(1) have "nul_free (json_strings ms)"
    by (induction ms rule: json_strings.induct) (auto simp: nul_free_def quoted_def)
  with assms(4) have "nul_free (pre @ json_strings ms @ [CHR '']''] @ post)"
    by (simp add: nul_free_def)
  from nft_fill_take [OF this, of "[]"] assms(5)
  show ?thesis using scan_macs_listing [OF assms(1), of pre post] assms(2,3) by simp
qed

text \<open>The output of nft 1.0.9 for a set of two addresses.\<close>

definition nft_listing_head :: string where
  "nft_listing_head = ''{\"nftables\": [{\"metainfo\": {\"version\": \"1.0.9\", \"release_name\": \"Old Doc Yak #3\", \"json_schema_version\": 1}}, {\"set\": {\"family\": \"inet\", \"name\": \"blocked_macs\", \"table\": \"netparent\", \"type\": \"ether_addr\", \"handle\": 2, \"flags\": [\"interval\"], \"elem\": [''"

theorem nft_list_roundtrip_witness:
  "scan_macs (nft_fill [] (nft_listing_head @ ''\"aa:bb:cc:dd:ee:ff\", \"11:22:33:44:55:66\"'' @ '']'' @ ''}}]}'' @ [NL]))
     = [''aa:bb:cc:dd:ee:ff'', ''11:22:33:44:55:66'']"
proof -
  let ?ms = "[''aa:bb:cc:dd:ee:ff'', ''11:22:33:44:55:66'']"
  have "list_all canonical_mac ?ms" "scan_macs nft_listing_head = []" "scan_macs (''}}]}'' @ [NL]) = []"
    "nul_free (nft_listing_head @ ''}}]}'' @ [NL])" "length (nft_listing_head @ json_strings ?ms @ '']'' @ ''}}]}'' @ [NL]) \<le> 4095"
    by code_simp+
  from nft_list_roundtrip [OF this] show ?thesis by (simp add: quoted_def)
qed

lemma ensure_ok:
  assumes "run_state (np_nft_ensure E table nset) s = (r, s')"
  shows "(r = 0 \<or> r = -1) \<and>
    (r = 0 \<longrightarrow> visible (sy_trace s') = visible (sy_trace s) @
        [Popen_write ''nft -f - 2>&1'' (nft_script table nset)]
        @ (if length (flush_args table) < 768 then [Popen_read (nft_cmd (flush_args table))] else [])
        @ [Popen_read (nft_cmd (rule_args ''saddr'' table nset)),
           Popen_read (nft_cmd (rule_args ''daddr'' table nset))]
      \<and> answered E (sy_trace s') (nft_cmd (rule_args ''saddr'' table nset)) 0
      \<and> answered E (sy_trace s') (nft_cmd (rule_args ''daddr'' table nset)) 0)"
proof (cases "e_popen E (sy_trace s @ [Popen_write ''nft -f - 2>&1'' (nft_script table nset)])")
  case None
  with assms show ?thesis by (auto simp: np_nft_ensure_def)
next
  case (Some a)
  obtain out rc where a: "a = (out, rc)" by force
  let ?s1 = "s\<lparr>sy_trace := sy_trace s @ [Popen_write ''nft -f - 2>&1'' (nft_script table nset)]\<rparr>"
  let ?w1 = "if rc \<noteq> 0 then LOG_WARN E ''nft initial ensure returned %d (may be benign if already present)''
                 [show_int rc] else ret ()"
  obtain l1 where l1: "run_state ?w1 ?s1 = ((), ?s1\<lparr>sy_trace := sy_trace ?s1 @ l1\<rparr>)" "visible l1 = []"
    by (rule run_optional_log [of ?w1 ?s1]) (auto intro!: emits_rules)
  let ?s2 = "?s1\<lparr>sy_trace := sy_trace ?s1 @ l1\<rparr>"
  obtain u1 r1 where u1: "run_state (run_nft E (flush_args table)) ?s2 = (r1, ?s2\<lparr>sy_trace := sy_trace ?s2 @ u1\<rparr>)"
    "visible u1 = (if length (flush_args table) < 768 then [Popen_read (nft_cmd (flush_args table))] else [])"
    by (rule run_nftE [of E "flush_args table" ?s2]) blast
  let ?s3 = "?s2\<lparr>sy_trace := sy_trace ?s2 @ u1\<rparr>"
  let ?w2 = "if r1 \<noteq> 0 then LOG_WARN E ''flush chain failed (chain may not exist yet)'' [] else ret ()"
  obtain l2 where l2: "run_state ?w2 ?s3 = ((), ?s3\<lparr>sy_trace := sy_trace ?s3 @ l2\<rparr>)" "visible l2 = []"
    by (rule run_optional_log [of ?w2 ?s3]) (auto intro!: emits_rules)
  let ?s4 = "?s3\<lparr>sy_trace := sy_trace ?s3 @ l2\<rparr>"
  obtain u2 r2 where u2: "run_state (run_nft E (rule_args ''saddr'' table nset)) ?s4
      = (r2, ?s4\<lparr>sy_trace := sy_trace ?s4 @ u2\<rparr>)"
    "r2 = 0 \<Longrightarrow> visible u2 = [Popen_read (nft_cmd (rule_args ''saddr'' table nset))]
       \<and> answered E (sy_trace ?s4 @ u2) (nft_cmd (rule_args ''saddr'' table nset)) 0"
    by (rule run_nftE [of E "rule_args ''saddr'' table nset" ?s4]) fastforce
  let ?s5 = "?s4\<lparr>sy_trace := sy_trace ?s4 @ u2\<rparr>"
  obtain u3 r3 where u3: "run_state (run_nft E (rule_args ''daddr'' table nset)) ?s5
      = (r3, ?s5\<lparr>sy_trace := sy_trace ?s5 @ u3\<rparr>)"
    "r3 = 0 \<Longrightarrow> visible u3 = [Popen_read (nft_cmd (rule_args ''daddr'' table nset))]
       \<and> answered E (sy_trace ?s5 @ u3) (nft_cmd (rule_args ''daddr'' table nset)) 0"
    by (rule run_nftE [of E "rule_args ''daddr'' table nset" ?s5]) fastforce
  note run = assms [unfolded np_nft_ensure_def flush_args_def [symmetric] rule_args_text [symmetric]]
  show ?thesis
  proof (cases "r2 = 0 \<and> r3 = 0")
    case True
    let ?L = "log_calls E NP_LOG_INFO (format ''nftables ready: table=%s set=%s'' [table, nset])
      (?s5\<lparr>sy_trace := sy_trace ?s5 @ u3\<rparr>)"
    have saddr: "answered E ((sy_trace ?s4 @ u2) @ u3 @ ?L) (nft_cmd (rule_args ''saddr'' table nset)) 0"
      by (rule answered_append) (use True u2(2) in simp)
    have daddr: "answered E ((sy_trace ?s5 @ u3) @ ?L) (nft_cmd (rule_args ''daddr'' table nset)) 0"
      by (rule answered_append) (use True u3(2) in simp)
    have "r = 0" "s' = ?s5\<lparr>sy_trace := sy_trace ?s5 @ u3 @ ?L\<rparr>"
      using True run Some a l1(1) u1(1) l2(1) u2(1) u3(1) by simp_all
    with True l1(2) u1(2) l2(2) u2(2) u3(2) saddr daddr show ?thesis
      by (simp add: visible_simps)
  next
    case False
    with run Some a l1 u1 l2 u2 u3 show ?thesis
      by (auto split: if_splits)
  qed
qed


text \<open>
  C20: \<open>np_nft_ensure\<close> returns 0 or -1, and 0 only after the script, the flush of the chain and
  the two drop rules were run in this order with status 0 for both rules: the daemon never starts with
  a rule missing.
\<close>

theorem nft_ensure_installs_rules:
  assumes "run_state (np_nft_ensure E table nset) s = (r, s')"
  shows "(r = 0 \<or> r = -1) \<and>
    (r = 0 \<longrightarrow> visible (sy_trace s') = visible (sy_trace s) @
        [Popen_write ''nft -f - 2>&1'' (nft_script table nset)]
        @ (if length (flush_args table) < 768 then [Popen_read (nft_cmd (flush_args table))] else [])
        @ [Popen_read (nft_cmd (rule_args ''saddr'' table nset)),
           Popen_read (nft_cmd (rule_args ''daddr'' table nset))]
      \<and> answered E (sy_trace s') (nft_cmd (rule_args ''saddr'' table nset)) 0
      \<and> answered E (sy_trace s') (nft_cmd (rule_args ''daddr'' table nset)) 0)"
  by (rule ensure_ok [OF assms])

theorem nft_ensure_installs_rules_witness:
  "answered calm (sy_trace (snd (run_state (np_nft_ensure calm ''inet t'' ''b'') sys_start)))
     (nft_cmd (rule_args ''daddr'' ''inet t'' ''b'')) 0"
proof -
  have r: "fst (run_state (np_nft_ensure calm ''inet t'' ''b'') sys_start) = 0" by code_simp
  from nft_ensure_installs_rules [OF prod.collapse [symmetric], of calm "''inet t''" "''b''" sys_start] r
  show ?thesis by blast
qed

end
