(* ===== verification/Mqtt.thy ===== *)
theory Mqtt
  imports Config
begin

text \<open>
  The component \<open>src/src/mqtt.c\<close>, \<open>src/src/mqtt.h\<close>: creating and configuring the client,
  the four publishing operations, the callbacks libmosquitto makes, the network loop and the shutdown.

  The C structure is split in two: \<open>np_mqtt\<close> holds the fields the publishing operations read, and
  the extension \<open>np_client\<close> adds the callbacks and the stop flag, with \<open>'u\<close> for the objects
  behind the \<open>user\<close> pointers (a callback takes their state and returns it). libmosquitto answers
  through the environment; its result codes MOSQ_ERR_SUCCESS, MOSQ_ERR_NO_CONN and MOSQ_ERR_CONN_LOST
  are 0, 4 and 7, and its log levels ERR, WARNING, NOTICE are the bits 8, 4, 2.
\<close>

unbundle bit_operations_syntax

section \<open>The client structure\<close>

record np_mqtt =
  nm_mosq :: bool
  nm_cfg :: np_config
  nm_status_topic :: "string option"
  nm_cmd_filter :: "string option"

record 'u np_client = np_mqtt +
  nc_on_message :: "(string \<Rightarrow> string \<Rightarrow> 'u \<Rightarrow> 'u np) option"
  nc_tick_cb :: "('u \<Rightarrow> 'u np) option"
  nc_stop :: int

text \<open>The formatted copy; \<open>None\<close> when \<open>malloc\<close> fails.\<close>

definition fmtstr :: "env \<Rightarrow> string \<Rightarrow> string list \<Rightarrow> string option np" where
  "fmtstr E fmt args = do {
     ok \<leftarrow> ask (e_malloc E) Malloc;
     ret (if ok then Some (format fmt args) else None) }"


section \<open>Publishing\<close>

text \<open>\<open>mosquitto_publish\<close> with QoS 1 and its result check, the tail of every publisher.\<close>

definition publish_checked :: "env \<Rightarrow> string \<Rightarrow> string \<Rightarrow> string \<Rightarrow> bool \<Rightarrow> int np" where
  "publish_checked E fmt topic payload retain = do {
     rc \<leftarrow> ask (e_mosq E) (Mosq_publish topic payload 1 retain);
     if rc \<noteq> 0 then do { LOG_DBG E fmt [show_int rc, e_strerror E rc]; ret (-1) } else ret 0 }"

definition np_mqtt_publish_status :: "env \<Rightarrow> 'a np_mqtt_scheme option \<Rightarrow> string \<Rightarrow> int np" where
  "np_mqtt_publish_status E m json_payload = (case m of
      None \<Rightarrow> ret (-1)
    | Some m \<Rightarrow>
        if \<not> nm_mosq m then ret (-1)
        else case nm_status_topic m of
            None \<Rightarrow> ret (-1)
          | Some topic \<Rightarrow> publish_checked E ''publish status rc=%d (%s)'' topic json_payload True)"

definition np_mqtt_publish_response ::
  "env \<Rightarrow> 'a np_mqtt_scheme option \<Rightarrow> string option \<Rightarrow> string \<Rightarrow> int np" where
  "np_mqtt_publish_response E m sfx json_payload = (case (m, sfx) of
      (Some m, Some sfx) \<Rightarrow>
        if \<not> nm_mosq m then ret (-1)
        else do {
          topic \<leftarrow> fmtstr E ''netparent/%s/response/%s'' [str (device_id (nm_cfg m)), sfx];
          case topic of
            None \<Rightarrow> ret (-1)
          | Some topic \<Rightarrow> publish_checked E ''publish response rc=%d (%s)'' topic json_payload False }
    | _ \<Rightarrow> ret (-1))"

definition np_mqtt_publish_devices :: "env \<Rightarrow> 'a np_mqtt_scheme option \<Rightarrow> string \<Rightarrow> int np" where
  "np_mqtt_publish_devices E m json_payload = (case m of
      None \<Rightarrow> ret (-1)
    | Some m \<Rightarrow>
        if \<not> nm_mosq m then ret (-1)
        else let topic = snprintf 128 ''netparent/%s/devices'' [str (device_id (nm_cfg m))]
             in publish_checked E ''publish devices rc=%d (%s)'' topic json_payload True)"

definition np_mqtt_publish_event ::
  "env \<Rightarrow> 'a np_mqtt_scheme option \<Rightarrow> string option \<Rightarrow> string \<Rightarrow> int np" where
  "np_mqtt_publish_event E m kind json_payload = (case (m, kind) of
      (Some m, Some kind) \<Rightarrow>
        if \<not> nm_mosq m then ret (-1)
        else let topic = snprintf 160 ''netparent/%s/event/%s'' [str (device_id (nm_cfg m)), kind]
             in publish_checked E ''publish event rc=%d (%s)'' topic json_payload False
    | _ \<Rightarrow> ret (-1))"


section \<open>Callbacks from libmosquitto\<close>

definition online :: string where "online = ''{\"online\":true}''"
definition offline :: string where "offline = ''{\"online\":false}''"

definition on_connect :: "env \<Rightarrow> 'a np_mqtt_scheme \<Rightarrow> int \<Rightarrow> unit np" where
  "on_connect E m rc =
     (if rc \<noteq> 0 then LOG_ERR E ''MQTT connect failed: %s'' [e_connack E rc]
      else do {
        LOG_INFO E ''MQTT connected; subscribing to %s'' [str (nm_cmd_filter m)];
        rc' \<leftarrow> ask (e_mosq E) (Mosq_subscribe (str (nm_cmd_filter m)) 1);
        if rc' \<noteq> 0 then LOG_ERR E ''subscribe failed'' []
        else do { _ \<leftarrow> np_mqtt_publish_status E (Some m) online; ret () } })"

definition on_disconnect :: "env \<Rightarrow> int \<Rightarrow> unit np" where
  "on_disconnect E rc =
     (if rc = 0 then LOG_INFO E ''MQTT disconnected cleanly'' []
      else LOG_WARN E ''MQTT disconnected unexpectedly (rc=%d), will reconnect'' [show_int rc])"

text \<open>
  \<open>msg\<close> is \<open>None\<close> for a NULL message, its topic \<open>None\<close> for a NULL topic; the payload
  length is the length of the payload.
\<close>

definition on_message ::
  "env \<Rightarrow> 'u np_client \<Rightarrow> (string option \<times> string) option \<Rightarrow> 'u \<Rightarrow> 'u np" where
  "on_message E m msg u = (case msg of
      Some (Some topic, payload) \<Rightarrow> do {
        LOG_DBG E ''MQTT msg: %s (%d bytes)'' [topic, show_int (int (length payload))];
        case nc_on_message m of None \<Rightarrow> ret u | Some cb \<Rightarrow> cb topic payload u }
    | _ \<Rightarrow> ret u)"

definition on_log :: "env \<Rightarrow> int \<Rightarrow> string \<Rightarrow> unit np" where
  "on_log E level s =
     (let lvl = (if level AND 8 \<noteq> 0 then NP_LOG_ERR
                 else if level AND 4 \<noteq> 0 then NP_LOG_WARN
                 else if level AND 2 \<noteq> 0 then NP_LOG_INFO else NP_LOG_DBG)
      in np_log E lvl (format ''mosq: %s'' [s]))"

fun dispatch :: "env \<Rightarrow> 'u np_client \<Rightarrow> mosq_event \<Rightarrow> 'u \<Rightarrow> 'u np" where
  "dispatch E m (Ev_connect rc) u = do { on_connect E m rc; ret u }"
| "dispatch E m (Ev_disconnect rc) u = do { on_disconnect E rc; ret u }"
| "dispatch E m (Ev_message msg) u = on_message E m msg u"
| "dispatch E m (Ev_log level s) u = do { on_log E level s; ret u }"

text \<open>\<open>mosquitto_loop(m->mosq, timeout, 1)\<close>: it makes its callbacks and returns a code.\<close>

definition mosq_loop :: "env \<Rightarrow> int \<Rightarrow> 'u np_client \<Rightarrow> 'u \<Rightarrow> (int \<times> 'u) np" where
  "mosq_loop E timeout m u = do {
     r \<leftarrow> ask (e_loop E) (Mosq_loop timeout);
     u' \<leftarrow> fold_np (dispatch E m) (fst r) u;
     ret (snd r, u') }"


section \<open>Creation and destruction\<close>

definition np_mqtt_destroy :: "'a np_mqtt_scheme option \<Rightarrow> unit np" where
  "np_mqtt_destroy m = (case m of
      None \<Rightarrow> ret ()
    | Some m \<Rightarrow> do {
        (if nm_mosq m then tell Mosq_destroy else ret ());
        tell Mosq_lib_cleanup })"

text \<open>The two optional steps; \<open>False\<close> stands for \<open>goto fail\<close>.\<close>

definition mqtt_set_auth :: "env \<Rightarrow> np_config \<Rightarrow> bool np" where
  "mqtt_set_auth E cfg = (case username cfg of
      None \<Rightarrow> ret True
    | Some u \<Rightarrow> do {
        rc \<leftarrow> ask (e_mosq E) (Mosq_username_pw_set u (password cfg));
        if rc \<noteq> 0 then do { LOG_ERR E ''mosquitto_username_pw_set failed'' []; ret False }
        else ret True })"

definition mqtt_set_tls :: "env \<Rightarrow> np_config \<Rightarrow> bool np" where
  "mqtt_set_tls E cfg =
     (if \<not> tls_enabled cfg then ret True
      else do {
        rc \<leftarrow> ask (e_mosq E) (Mosq_tls_set (tls_ca_file cfg) (tls_cert_file cfg) (tls_key_file cfg));
        if rc \<noteq> 0
        then do { LOG_ERR E ''mosquitto_tls_set failed: %s'' [e_strerror E rc]; ret False }
        else do {
          (if tls_insecure cfg
           then do { tell (Mosq_tls_insecure_set True);
                     LOG_WARN E ''TLS hostname verification DISABLED (tls_insecure=1)'' [] }
           else ret ());
          ret True } })"

definition np_mqtt_create ::
  "env \<Rightarrow> np_config \<Rightarrow> (string \<Rightarrow> string \<Rightarrow> 'u \<Rightarrow> 'u np) option \<Rightarrow> 'u np_client option np" where
  "np_mqtt_create E cfg on_message_cb = do {
     tell Mosq_lib_init;
     ok \<leftarrow> ask (e_malloc E) Malloc;
     if \<not> ok then ret None
     else do {
       status \<leftarrow> fmtstr E ''netparent/%s/status'' [str (device_id cfg)];
       cmd \<leftarrow> fmtstr E ''netparent/%s/cmd/#'' [str (device_id cfg)];
       let m = \<lparr>nm_mosq = False, nm_cfg = cfg, nm_status_topic = status, nm_cmd_filter = cmd,
                nc_on_message = on_message_cb, nc_tick_cb = None, nc_stop = 0\<rparr>;
       if status = None \<or> cmd = None then do { np_mqtt_destroy (Some m); ret None }
       else do {
         new \<leftarrow> ask (e_mosq_new E)
                  (Mosq_new (snprintf 64 ''netparent-%s'' [str (device_id cfg)]) True);
         if \<not> new
         then do { LOG_ERR E ''mosquitto_new failed'' []; np_mqtt_destroy (Some m); ret None }
         else do {
           let m = m\<lparr>nm_mosq := True\<rparr>;
           tell Mosq_connect_callback_set;
           tell Mosq_disconnect_callback_set;
           tell Mosq_message_callback_set;
           tell Mosq_log_callback_set;
           auth \<leftarrow> mqtt_set_auth E cfg;
           if \<not> auth then do { np_mqtt_destroy (Some m); ret None }
           else do {
             tls \<leftarrow> mqtt_set_tls E cfg;
             if \<not> tls then do { np_mqtt_destroy (Some m); ret None }
             else do {
               will \<leftarrow> ask (e_mosq E) (Mosq_will_set (str status) offline 1 True);
               (if will \<noteq> 0 then LOG_WARN E ''LWT set failed (continuing without LWT)'' []
                else ret ());
               tell (Mosq_reconnect_delay_set 2 120 True);
               ret (Some m) } } } } } }"

definition np_mqtt_set_tick :: "'u np_client option \<Rightarrow> ('u \<Rightarrow> 'u np) option \<Rightarrow> 'u np_client option" where
  "np_mqtt_set_tick m cb = (case m of None \<Rightarrow> None | Some m \<Rightarrow> Some (m\<lparr>nc_tick_cb := cb\<rparr>))"


section \<open>The network loop\<close>

definition np_mqtt_stop :: "'u np_client option \<Rightarrow> 'u np_client option" where
  "np_mqtt_stop m = (case m of None \<Rightarrow> None | Some m \<Rightarrow> Some (m\<lparr>nc_stop := 1\<rparr>))"

text \<open>
  The signal handler of \<open>main.c\<close>. A signal may arrive at any moment, but it only sets the flag, and
  the flag is only read at the head of the loop: so delivery is decided just before each read.
\<close>

definition on_signal :: "'u np_client option \<Rightarrow> 'u np_client option" where
  "on_signal g_mqtt = (if g_mqtt \<noteq> None then np_mqtt_stop g_mqtt else None)"

definition read_stop :: "env \<Rightarrow> 'u np_client \<Rightarrow> 'u np_client np" where
  "read_stop E m = do {
     sig \<leftarrow> ask (e_signal E) Signal_window;
     ret (if sig then the (on_signal (Some m)) else m) }"

definition run_iteration :: "env \<Rightarrow> 'u np_client \<Rightarrow> 'u \<Rightarrow> 'u np" where
  "run_iteration E m u = do {
     r \<leftarrow> mosq_loop E 500 m u;
     (if fst r = 4 \<or> fst r = 7
      then do { LOG_WARN E ''connection lost; reconnecting'' [];
                _ \<leftarrow> ask (e_mosq E) Mosq_reconnect_async; ret () }
      else if fst r \<noteq> 0
      then LOG_DBG E ''mosquitto_loop rc=%d (%s)'' [show_int (fst r), e_strerror E (fst r)]
      else ret ());
     case nc_tick_cb m of None \<Rightarrow> ret (snd r) | Some cb \<Rightarrow> cb (snd r) }"

partial_function (option) run_loop ::
  "env \<Rightarrow> 'u np_client \<Rightarrow> 'u \<Rightarrow> sys \<Rightarrow> (('u np_client \<times> 'u) \<times> sys) option" where
  "run_loop E m u s =
     (let (m', s1) = run_state (read_stop E m) s
      in if nc_stop m' \<noteq> 0 then Some ((m', u), s1)
         else let (u', s2) = run_state (run_iteration E m' u) s1 in run_loop E m' u' s2)"

fun drain :: "env \<Rightarrow> nat \<Rightarrow> 'u np_client \<Rightarrow> 'u \<Rightarrow> 'u np" where
  "drain E 0 m u = ret u"
| "drain E (Suc n) m u = do { r \<leftarrow> mosq_loop E 100 m u; drain E n m (snd r) }"

definition run_connect :: "env \<Rightarrow> 'a np_mqtt_scheme \<Rightarrow> bool np" where
  "run_connect E m = do {
     LOG_INFO E ''connecting to %s:%d (tls=%d)'' [str (broker_host (nm_cfg m)),
       show_int (broker_port (nm_cfg m)), show_int (if tls_enabled (nm_cfg m) then 1 else 0)];
     rc \<leftarrow> ask (e_mosq E) (Mosq_connect_async (str (broker_host (nm_cfg m)))
                           (broker_port (nm_cfg m)) (keepalive (nm_cfg m)));
     if rc \<noteq> 0
     then do { LOG_ERR E ''mosquitto_connect_async failed: %s'' [e_strerror E rc]; ret False }
     else ret True }"

definition run_shutdown :: "env \<Rightarrow> 'u np_client \<Rightarrow> 'u \<Rightarrow> 'u np" where
  "run_shutdown E m u = do {
     _ \<leftarrow> np_mqtt_publish_status E (Some m) offline;
     _ \<leftarrow> ask (e_mosq E) Mosq_disconnect;
     drain E 10 m u }"

text \<open>\<open>None\<close>: the loop never ends.\<close>

definition np_mqtt_run :: "env \<Rightarrow> 'u np_client option \<Rightarrow> 'u \<Rightarrow> sys \<Rightarrow> ((int \<times> 'u) \<times> sys) option" where
  "np_mqtt_run E m u s = (case m of
      None \<Rightarrow> Some ((-1, u), s)
    | Some m \<Rightarrow>
        if \<not> nm_mosq m then Some ((-1, u), s)
        else let (ok, s1) = run_state (run_connect E m) s
             in if \<not> ok then Some ((-1, u), s1)
                else case run_loop E m u s1 of
                    None \<Rightarrow> None
                  | Some ((m', u'), s2) \<Rightarrow>
                      let (u'', s3) = run_state (run_shutdown E m' u') s2 in Some ((0, u''), s3))"


section \<open>Topics and messages\<close>

definition mqtt_live :: "'a np_mqtt_scheme option \<Rightarrow> bool" where
  "mqtt_live m = (case m of None \<Rightarrow> False | Some m \<Rightarrow> nm_mosq m)"

definition mqtt_id :: "'a np_mqtt_scheme option \<Rightarrow> string" where
  "mqtt_id m = (case m of None \<Rightarrow> [] | Some m \<Rightarrow> str (device_id (nm_cfg m)))"

definition devices_topic :: "string \<Rightarrow> string" where
  "devices_topic i = take 127 (''netparent/'' @ i @ ''/devices'')"

definition event_topic :: "string \<Rightarrow> string \<Rightarrow> string" where
  "event_topic i kind = take 159 (''netparent/'' @ i @ ''/event/'' @ kind)"

definition response_topic :: "string \<Rightarrow> string \<Rightarrow> string" where
  "response_topic i req = ''netparent/'' @ i @ ''/response/'' @ req"

definition status_topic :: "string \<Rightarrow> string" where
  "status_topic i = ''netparent/'' @ i @ ''/status''"

definition cmd_filter :: "string \<Rightarrow> string" where
  "cmd_filter i = ''netparent/'' @ i @ ''/cmd/#''"

lemma topic_texts:
  "snprintf 128 ''netparent/%s/devices'' [i] = devices_topic i"
  "snprintf 160 ''netparent/%s/event/%s'' [i, k] = event_topic i k"
  "format ''netparent/%s/response/%s'' [i, r] = response_topic i r"
  "format ''netparent/%s/status'' [i] = status_topic i"
  "format ''netparent/%s/cmd/#'' [i] = cmd_filter i"
  by (simp_all add: snprintf_def devices_topic_def event_topic_def response_topic_def
      status_topic_def cmd_filter_def format.simps)

lemma run_publish_checked:
  "\<exists>l. run_state (publish_checked E fmt topic payload retain) s =
     (if e_mosq E (sy_trace s @ [Mosq_publish topic payload 1 retain]) = 0 then 0 else -1,
      s\<lparr>sy_trace := sy_trace s @ [Mosq_publish topic payload 1 retain] @ l\<rparr>) \<and> list_all is_log l"
  by (cases "e_mosq E (sy_trace s @ [Mosq_publish topic payload 1 retain]) = 0")
    (auto simp: publish_checked_def run_np_log(2) intro: exI [of _ "[]"])

lemma visible_publish_checked:
  "visible (sy_trace (snd (run_state (publish_checked E fmt topic payload retain) s))) =
     visible (sy_trace s) @ [Mosq_publish topic payload 1 retain]"
  using run_publish_checked [of E fmt topic payload retain s] by (auto simp: visible_simps)

lemma emits_publish_checked:
  "P (Mosq_publish topic payload 1 retain) \<Longrightarrow> (\<And>c. is_log c \<Longrightarrow> P c) \<Longrightarrow>
   emits P (publish_checked E fmt topic payload retain)"
  unfolding publish_checked_def by (intro emits_rules) auto


section \<open>The publishing interface\<close>

text \<open>
  What the leases and the handler rely on: a publisher has a fixed topic and retain flag, and one call
  adds one message to what the broker was handed when the client is live, and nothing else to the
  visible trace.
\<close>

locale publisher =
  fixes pub :: "string \<Rightarrow> int np" and live :: bool and topic :: string and retain :: bool
  assumes visible_pub: "visible (sy_trace (snd (run_state (pub p) s))) =
      visible (sy_trace s) @ (if live then [Mosq_publish topic p 1 retain] else [])"
    and frame: "emits (\<lambda>c. is_log c \<or> c = Mosq_publish topic p 1 retain) (pub p)"
begin

lemma published_pub:
  "published (sy_trace (snd (run_state (pub p) s))) =
     published (sy_trace s) @ (if live then [(topic, p, 1, retain)] else [])"
proof -
  have "published (visible (sy_trace (snd (run_state (pub p) s)))) =
      published (visible (sy_trace s)) @ (if live then [(topic, p, 1, retain)] else [])"
    unfolding visible_pub by (simp add: visible_simps)
  then show ?thesis by (simp only: published_of_visible)
qed

lemma shell_pub: "shell (sy_trace (snd (run_state (pub p) s))) = shell (sy_trace s)"
proof -
  have "shell (visible (sy_trace (snd (run_state (pub p) s)))) = shell (visible (sy_trace s))"
    unfolding visible_pub by (simp add: visible_simps)
  then show ?thesis by (simp only: shell_of_visible)
qed

lemma emits_pub:
  "(\<And>c. is_log c \<Longrightarrow> P c) \<Longrightarrow> (\<And>p. P (Mosq_publish topic p 1 retain)) \<Longrightarrow> emits P (pub p)"
  by (rule emits_mono [OF frame]) auto

end

interpretation devices: publisher "np_mqtt_publish_devices E m" "mqtt_live m"
    "devices_topic (mqtt_id m)" True for E m
  by unfold_locales
    (auto simp: np_mqtt_publish_devices_def mqtt_live_def mqtt_id_def topic_texts visible_publish_checked
      intro!: emits_rules emits_publish_checked split: option.splits)

interpretation device_event: publisher "np_mqtt_publish_event E m (Some kind)" "mqtt_live m"
    "event_topic (mqtt_id m) kind" False for E m kind
  by unfold_locales
    (auto simp: np_mqtt_publish_event_def mqtt_live_def mqtt_id_def topic_texts visible_publish_checked
      intro!: emits_rules emits_publish_checked split: option.splits)

definition status_live :: "'a np_mqtt_scheme option \<Rightarrow> bool" where
  "status_live m = (mqtt_live m \<and> nm_status_topic (the m) \<noteq> None)"

interpretation status: publisher "np_mqtt_publish_status E m" "status_live m"
    "str (nm_status_topic (the m))" True for E m
  by unfold_locales
    (auto simp: np_mqtt_publish_status_def status_live_def mqtt_live_def str_def visible_publish_checked
      intro!: emits_rules emits_publish_checked split: option.splits)

text \<open>A response needs memory for its topic; without it nothing is published.\<close>

lemma visible_publish_response:
  "visible (sy_trace (snd (run_state (np_mqtt_publish_response E m sfx p) s))) = visible (sy_trace s) @
     (if mqtt_live m \<and> sfx \<noteq> None
      then Malloc # (if e_malloc E (sy_trace s @ [Malloc])
                     then [Mosq_publish (response_topic (mqtt_id m) (the sfx)) p 1 False] else [])
      else [])"
  by (auto simp: np_mqtt_publish_response_def mqtt_live_def mqtt_id_def fmtstr_def topic_texts
      visible_publish_checked visible_simps split: option.splits)

lemma emits_publish_response:
  assumes "\<And>c. is_log c \<Longrightarrow> P c" "P Malloc" "\<And>r. sfx = Some r \<Longrightarrow> P (Mosq_publish (response_topic (mqtt_id m) r) p 1 False)"
  shows "emits P (np_mqtt_publish_response E m sfx p)"
  using assms unfolding np_mqtt_publish_response_def fmtstr_def mqtt_id_def
  by (auto intro!: emits_rules emits_publish_checked simp: topic_texts split: option.splits if_splits)


section \<open>Creating the client\<close>

text \<open>The calls of the optional steps when they succeed.\<close>

definition auth_calls :: "np_config \<Rightarrow> history" where
  "auth_calls cfg = (case username cfg of None \<Rightarrow> []
     | Some u \<Rightarrow> [Mosq_username_pw_set u (password cfg)])"

definition tls_call :: "np_config \<Rightarrow> call" where
  "tls_call cfg = Mosq_tls_set (tls_ca_file cfg) (tls_cert_file cfg) (tls_key_file cfg)"

definition tls_calls :: "np_config \<Rightarrow> history" where
  "tls_calls cfg = (if tls_enabled cfg
     then tls_call cfg # (if tls_insecure cfg then [Mosq_tls_insecure_set True] else []) else [])"

text \<open>\<open>accepted E c t\<close>: in the trace \<open>t\<close> libmosquitto accepted the call \<open>c\<close>.\<close>

definition accepted :: "env \<Rightarrow> call \<Rightarrow> history \<Rightarrow> bool" where
  "accepted E c t \<longleftrightarrow> (\<exists>h u. t = h @ [c] @ u \<and> e_mosq E (h @ [c]) = 0)"

lemma accepted_append: "accepted E c t \<Longrightarrow> accepted E c (t @ u)"
  unfolding accepted_def by (metis append.assoc)

lemma acceptedI: "e_mosq E (h @ [c]) = 0 \<Longrightarrow> accepted E c (h @ [c])"
  unfolding accepted_def by (intro exI [of _ h] exI [of _ "[]"]) simp

definition mqtt_setup :: "call \<Rightarrow> bool" where
  "mqtt_setup c \<longleftrightarrow> is_log c \<or> c = Malloc \<or>
     (case c of Mosq_lib_init \<Rightarrow> True | Mosq_new _ _ \<Rightarrow> True | Mosq_connect_callback_set \<Rightarrow> True
      | Mosq_disconnect_callback_set \<Rightarrow> True | Mosq_message_callback_set \<Rightarrow> True | Mosq_log_callback_set \<Rightarrow> True
      | Mosq_username_pw_set _ _ \<Rightarrow> True | Mosq_tls_set _ _ _ \<Rightarrow> True | Mosq_tls_insecure_set _ \<Rightarrow> True
      | Mosq_will_set _ _ _ _ \<Rightarrow> True | Mosq_reconnect_delay_set _ _ _ \<Rightarrow> True
      | Mosq_destroy \<Rightarrow> True | Mosq_lib_cleanup \<Rightarrow> True | _ \<Rightarrow> False)"

lemma run_destroy [simp]:
  "run_state (np_mqtt_destroy (Some m)) s =
     ((), s\<lparr>sy_trace := sy_trace s @ (if nm_mosq m then [Mosq_destroy] else []) @ [Mosq_lib_cleanup]\<rparr>)"
  by (simp add: np_mqtt_destroy_def)

lemma set_auth_True:
  assumes "run_state (mqtt_set_auth E cfg) s = (True, s')"
  shows "visible (sy_trace s') = visible (sy_trace s) @ auth_calls cfg"
  using assms by (auto simp: mqtt_set_auth_def auth_calls_def visible_simps split: option.splits if_splits)

lemma set_tls_True:
  assumes "run_state (mqtt_set_tls E cfg) s = (True, s')"
  shows "visible (sy_trace s') = visible (sy_trace s) @ tls_calls cfg"
    and "tls_enabled cfg \<Longrightarrow> accepted E (tls_call cfg) (sy_trace s')"
proof -
  show "visible (sy_trace s') = visible (sy_trace s) @ tls_calls cfg"
    using assms by (auto simp: mqtt_set_tls_def tls_calls_def tls_call_def visible_simps split: if_splits)
  assume "tls_enabled cfg"
  with assms have "e_mosq E (sy_trace s @ [tls_call cfg]) = 0"
    by (auto simp: mqtt_set_tls_def tls_call_def split: if_splits)
  then have a: "accepted E (tls_call cfg) (sy_trace s @ [tls_call cfg])" by (rule acceptedI)
  have "\<exists>u. sy_trace s' = (sy_trace s @ [tls_call cfg]) @ u"
    using assms \<open>tls_enabled cfg\<close> by (auto simp: mqtt_set_tls_def tls_call_def split: if_splits)
  then show "accepted E (tls_call cfg) (sy_trace s')"
    using accepted_append [OF a] by metis
qed

lemma emits_create: "emits mqtt_setup (np_mqtt_create E cfg cb)"
  unfolding np_mqtt_create_def mqtt_set_auth_def mqtt_set_tls_def np_mqtt_destroy_def fmtstr_def Let_def
  by (intro emits_rules) (auto simp: mqtt_setup_def)

definition new_client :: "np_config \<Rightarrow> (string \<Rightarrow> string \<Rightarrow> 'u \<Rightarrow> 'u np) option \<Rightarrow> 'u np_client" where
  "new_client cfg cb = \<lparr>nm_mosq = True, nm_cfg = cfg,
     nm_status_topic = Some (status_topic (str (device_id cfg))),
     nm_cmd_filter = Some (cmd_filter (str (device_id cfg))),
     nc_on_message = cb, nc_tick_cb = None, nc_stop = 0\<rparr>"

lemma create_SomeD:
  assumes "run_state (np_mqtt_create E cfg cb) s = (Some m, s')"
  shows "m = new_client cfg cb \<and>
    visible (sy_trace s') = visible (sy_trace s) @
      [Mosq_lib_init, Malloc, Malloc, Malloc,
       Mosq_new (snprintf 64 ''netparent-%s'' [str (device_id cfg)]) True,
       Mosq_connect_callback_set, Mosq_disconnect_callback_set,
       Mosq_message_callback_set, Mosq_log_callback_set]
      @ auth_calls cfg @ tls_calls cfg
      @ [Mosq_will_set (status_topic (str (device_id cfg))) offline 1 True, Mosq_reconnect_delay_set 2 120 True]
    \<and> (tls_enabled cfg \<longrightarrow> accepted E (tls_call cfg) (sy_trace s'))"
proof -
  let ?t = "sy_trace s @ [Mosq_lib_init, Malloc, Malloc, Malloc,
       Mosq_new (snprintf 64 ''netparent-%s'' [str (device_id cfg)]) True,
       Mosq_connect_callback_set, Mosq_disconnect_callback_set,
       Mosq_message_callback_set, Mosq_log_callback_set]"
  let ?s1 = "s\<lparr>sy_trace := ?t\<rparr>"
  obtain a s2 where a: "run_state (mqtt_set_auth E cfg) ?s1 = (a, s2)" by force
  obtain b s3 where b: "run_state (mqtt_set_tls E cfg) s2 = (b, s3)" by force
  have ab: "a \<and> b" and m: "m = new_client cfg cb"
    using assms a b
    by (auto simp: np_mqtt_create_def fmtstr_def Let_def new_client_def topic_texts
        split: if_splits)
  note auth = set_auth_True [of E cfg ?s1 s2] and tls = set_tls_True [of E cfg s2 s3]
  have "\<exists>l. sy_trace s' = sy_trace s3 @ [Mosq_will_set (status_topic (str (device_id cfg))) offline 1 True]
      @ l @ [Mosq_reconnect_delay_set 2 120 True] \<and> list_all is_log l"
    using assms a b ab
    by (auto simp: np_mqtt_create_def fmtstr_def Let_def topic_texts run_np_log(2)
        split: if_splits intro: exI [of _ "[]"])
  then obtain l where l: "sy_trace s' = sy_trace s3
      @ [Mosq_will_set (status_topic (str (device_id cfg))) offline 1 True]
      @ l @ [Mosq_reconnect_delay_set 2 120 True]" "list_all is_log l" by blast
  with a b ab auth tls m show ?thesis
    by (auto simp: visible_simps intro: accepted_append)
qed


section \<open>The network loop\<close>

text \<open>
  The state at the head of the \<open>n\<close>-th iteration when no signal came before, and whether one is
  found there.
\<close>

definition after_read :: "sys \<Rightarrow> sys" where
  "after_read s = s\<lparr>sy_trace := sy_trace s @ [Signal_window]\<rparr>"

definition signalled :: "env \<Rightarrow> sys \<Rightarrow> bool" where
  "signalled E s = e_signal E (sy_trace (after_read s))"

fun loop_state :: "env \<Rightarrow> nat \<Rightarrow> 'u np_client \<Rightarrow> 'u \<Rightarrow> sys \<Rightarrow> 'u \<times> sys" where
  "loop_state E 0 m u s = (u, s)"
| "loop_state E (Suc n) m u s =
     (let (u', s') = run_state (run_iteration E m u) (after_read s) in loop_state E n m u' s')"

definition stopped :: "'u np_client \<Rightarrow> 'u np_client" where
  "stopped m = m\<lparr>nc_stop := 1\<rparr>"

lemma run_read_stop:
  "run_state (read_stop E m) s = (if signalled E s then stopped m else m, after_read s)"
  by (simp add: read_stop_def on_signal_def np_mqtt_stop_def stopped_def signalled_def after_read_def)

lemma run_loop_step:
  "nc_stop m = 0 \<Longrightarrow> run_loop E m u s =
     (if signalled E s then Some ((stopped m, u), after_read s)
      else let (u', s') = run_state (run_iteration E m u) (after_read s) in run_loop E m u' s')"
  by (subst run_loop.simps) (simp add: run_read_stop stopped_def)

lemma run_loop_at:
  assumes "nc_stop m = 0" and "\<And>k. k < n \<Longrightarrow> \<not> signalled E (snd (loop_state E k m u s))"
    and "signalled E (snd (loop_state E n m u s))"
  shows "run_loop E m u s = Some ((stopped m, fst (loop_state E n m u s)), after_read (snd (loop_state E n m u s)))"
  using assms(2,3)
proof (induction n arbitrary: u s)
  case 0
  then show ?case using assms(1) by (simp add: run_loop_step)
next
  case (Suc n)
  obtain u' s' where r: "run_state (run_iteration E m u) (after_read s) = (u', s')" by force
  have n0: "\<not> signalled E s" using Suc.prems(1) [of 0] by simp
  have "run_loop E m u' s' = Some ((stopped m, fst (loop_state E n m u' s')), after_read (snd (loop_state E n m u' s')))"
  proof (rule Suc.IH)
    show "\<not> signalled E (snd (loop_state E k m u' s'))" if "k < n" for k
      using Suc.prems(1) [of "Suc k"] that r by simp
    show "signalled E (snd (loop_state E n m u' s'))" using Suc.prems(2) r by simp
  qed
  with n0 r assms(1) show ?case by (simp add: run_loop_step)
qed

lemma run_loop_returned:
  assumes "run_loop E m u s = Some r"
  shows "nc_stop m = 0 \<longrightarrow> (\<exists>n. signalled E (snd (loop_state E n m u s)))"
proof (rule run_loop.raw_induct [where P = "\<lambda>E m u s r. nc_stop m = 0 \<longrightarrow> (\<exists>n. signalled E (snd (loop_state E n m u s)))",
      OF _ assms])
  fix f and E :: env and m :: "'a np_client" and u s r
  assume IH: "\<And>E m u s r. f E m u s = Some r \<Longrightarrow>
      nc_stop m = 0 \<longrightarrow> (\<exists>n. signalled E (snd (loop_state E n m u s)))"
    and eq: "(let (m', s1) = run_state (read_stop E m) s
      in if nc_stop m' \<noteq> 0 then Some ((m', u), s1)
         else let (u', s2) = run_state (run_iteration E m' u) s1 in f E m' u' s2) = Some r"
  show "nc_stop m = 0 \<longrightarrow> (\<exists>n. signalled E (snd (loop_state E n m u s)))"
  proof
    assume z: "nc_stop m = 0"
    show "\<exists>n. signalled E (snd (loop_state E n m u s))"
    proof (cases "signalled E s")
      case True
      then show ?thesis by (intro exI [of _ 0]) simp
    next
      case False
      obtain u' s' where r: "run_state (run_iteration E m u) (after_read s) = (u', s')" by force
      with eq False z have "f E m u' s' = Some r" by (simp add: run_read_stop)
      with IH z obtain n where "signalled E (snd (loop_state E n m u' s'))" by blast
      with r show ?thesis by (intro exI [of _ "Suc n"]) simp
    qed
  qed
qed

lemma run_loop_result:
  assumes "run_loop E m u s = Some r" "nc_stop m = 0"
  obtains n where "r = ((stopped m, fst (loop_state E n m u s)), after_read (snd (loop_state E n m u s)))"
    "signalled E (snd (loop_state E n m u s))"
proof -
  let ?P = "\<lambda>n. signalled E (snd (loop_state E n m u s))"
  have "\<exists>n. ?P n" using run_loop_returned [OF assms(1)] assms(2) by simp
  then have l: "?P (LEAST n. ?P n)" by (rule LeastI_ex)
  have "\<not> ?P k" if "k < (LEAST n. ?P n)" for k using that by (rule not_less_Least)
  from run_loop_at [OF assms(2) this l] assms(1) l that show thesis by simp
qed

text \<open>An invariant of one iteration and of reading the flag holds at every head of the loop.\<close>

lemma loop_state_invariant:
  assumes "\<And>u s. Q u s \<Longrightarrow> Q u (after_read s)"
    and "\<And>u s. Q u s \<Longrightarrow> Q (fst (run_state (run_iteration E m u) s)) (snd (run_state (run_iteration E m u) s))"
    and "Q u s"
  shows "Q (fst (loop_state E n m u s)) (snd (loop_state E n m u s))"
  using assms(3)
proof (induction n arbitrary: u s)
  case (Suc n)
  then have "Q (fst (run_state (run_iteration E m u) (after_read s)))
      (snd (run_state (run_iteration E m u) (after_read s)))"
    using assms(1,2) by blast
  from Suc.IH [OF this] show ?case by (simp add: case_prod_beta)
qed simp

lemma emits_on_connect:
  "(\<And>c. is_log c \<Longrightarrow> P c) \<Longrightarrow> P (Mosq_subscribe (str (nm_cmd_filter m)) 1) \<Longrightarrow>
   (\<And>p. P (Mosq_publish (str (nm_status_topic m)) p 1 True)) \<Longrightarrow> emits P (on_connect E m rc)"
  unfolding on_connect_def
  by (intro emits_rules status.emits_pub) auto

lemma emits_on_disconnect: "(\<And>c. is_log c \<Longrightarrow> P c) \<Longrightarrow> emits P (on_disconnect E rc)"
  unfolding on_disconnect_def by (intro emits_rules) auto

lemma emits_on_log: "(\<And>c. is_log c \<Longrightarrow> P c) \<Longrightarrow> emits P (on_log E level msg)"
  unfolding on_log_def Let_def by (intro emits_rules) auto

lemma emits_on_message:
  "(\<And>c. is_log c \<Longrightarrow> P c) \<Longrightarrow> (\<And>cb t p u. nc_on_message m = Some cb \<Longrightarrow> emits P (cb t p u)) \<Longrightarrow>
   emits P (on_message E m msg u)"
  unfolding on_message_def
  by (auto intro!: emits_rules split: option.splits prod.splits)

text \<open>What the whole loop may do, from what the callbacks may do.\<close>

definition client_calls :: "(call \<Rightarrow> bool) \<Rightarrow> 'u np_client \<Rightarrow> bool" where
  "client_calls P m \<longleftrightarrow> (\<forall>c. is_log c \<longrightarrow> P c) \<and> P (Mosq_subscribe (str (nm_cmd_filter m)) 1) \<and>
     (\<forall>p. P (Mosq_publish (str (nm_status_topic m)) p 1 True)) \<and> (\<forall>t. P (Mosq_loop t)) \<and>
     P Mosq_reconnect_async \<and> P Signal_window \<and> P Mosq_disconnect \<and>
     (\<forall>cb t p u. nc_on_message m = Some cb \<longrightarrow> emits P (cb t p u)) \<and>
     (\<forall>cb u. nc_tick_cb m = Some cb \<longrightarrow> emits P (cb u))"

lemma emits_dispatch: "client_calls P m \<Longrightarrow> emits P (dispatch E m ev u)"
  by (cases ev)
    (auto simp: client_calls_def intro!: emits_rules emits_on_connect emits_on_disconnect emits_on_log
      emits_on_message)

lemma emits_mosq_loop: "client_calls P m \<Longrightarrow> emits P (mosq_loop E t m u)"
  unfolding mosq_loop_def
  by (intro emits_rules emits_dispatch) (auto simp: client_calls_def)

lemma emits_run_iteration: "client_calls P m \<Longrightarrow> emits P (run_iteration E m u)"
  unfolding run_iteration_def
  by (intro emits_rules emits_mosq_loop) (auto simp: client_calls_def)

lemma emits_drain: "client_calls P m \<Longrightarrow> emits P (drain E n m u)"
proof (induction n arbitrary: u)
  case (Suc n)
  then show ?case by (auto intro!: emits_bind emits_mosq_loop)
qed (simp add: emits_return)

lemma emits_run_shutdown: "client_calls P m \<Longrightarrow> emits P (run_shutdown E m u)"
  unfolding run_shutdown_def
  by (intro emits_rules emits_drain status.emits_pub) (auto simp: client_calls_def)

lemma run_loop_returns_iff:
  assumes "nc_stop m = 0" and "\<exists>n. signalled E (snd (loop_state E n m u s))"
  shows "\<exists>u' s'. run_loop E m u s = Some ((stopped m, u'), s')"
proof -
  let ?P = "\<lambda>n. signalled E (snd (loop_state E n m u s))"
  have l: "?P (LEAST n. ?P n)" using assms(2) by (rule LeastI_ex)
  have "\<not> ?P k" if "k < (LEAST n. ?P n)" for k using that by (rule not_less_Least)
  from run_loop_at [OF assms(1) this l] show ?thesis by blast
qed

lemma shutdown_trace:
  assumes "run_state (run_shutdown E m u) s = (u', s')" "nm_mosq m" "nm_status_topic m = Some t"
    and "client_calls (\<lambda>_. True) m"
  shows "\<exists>h l d. sy_trace s' = h @ [Mosq_publish t offline 1 True] @ l @ [Mosq_disconnect] @ d \<and> list_all is_log l"
proof -
  let ?fmt = "''publish status rc=%d (%s)''"
  obtain rc l where p: "run_state (publish_checked E ?fmt t offline True) s =
      (rc, s\<lparr>sy_trace := sy_trace s @ [Mosq_publish t offline 1 True] @ l\<rparr>)" "list_all is_log l"
    using run_publish_checked [of E ?fmt t offline True s] by blast
  let ?s2 = "s\<lparr>sy_trace := sy_trace s @ [Mosq_publish t offline 1 True] @ l @ [Mosq_disconnect]\<rparr>"
  have "run_state (drain E 10 m u) ?s2 = (u', s')"
    using assms(1-3) p(1) by (simp add: run_shutdown_def np_mqtt_publish_status_def)
  with emits_trace [OF emits_drain [OF assms(4)], of E 10 u ?s2]
  obtain d where "sy_trace s' = sy_trace ?s2 @ d" by auto
  then have "sy_trace s' = sy_trace s @ [Mosq_publish t offline 1 True] @ l @ [Mosq_disconnect] @ d" by simp
  with p(2) show ?thesis by blast
qed


section \<open>Properties\<close>

text \<open>
  C37: topics, QoS and retain flags. Through a live client the snapshot and the status go out retained on
  their topics, events and responses not retained, all with QoS 1 and exactly once; through a client that
  is not there nothing is published.
\<close>

theorem mqtt_publish_messages:
  "published (sy_trace (snd (run_state (np_mqtt_publish_devices E m p) s))) =
     published (sy_trace s) @ (if mqtt_live m then [(devices_topic (mqtt_id m), p, 1, True)] else []) \<and>
   published (sy_trace (snd (run_state (np_mqtt_publish_event E m (Some k) p) s))) =
     published (sy_trace s) @ (if mqtt_live m then [(event_topic (mqtt_id m) k, p, 1, False)] else []) \<and>
   published (sy_trace (snd (run_state (np_mqtt_publish_status E m p) s))) =
     published (sy_trace s) @
       (if status_live m then [(str (nm_status_topic (the m)), p, 1, True)] else []) \<and>
   published (sy_trace (snd (run_state (np_mqtt_publish_response E m (Some r) p) s))) =
     published (sy_trace s) @ (if mqtt_live m \<and> e_malloc E (sy_trace s @ [Malloc])
       then [(response_topic (mqtt_id m) r, p, 1, False)] else [])"
proof -
  have "published (visible (sy_trace (snd (run_state (np_mqtt_publish_response E m (Some r) p) s)))) =
      published (visible (sy_trace s)) @ (if mqtt_live m \<and> e_malloc E (sy_trace s @ [Malloc])
        then [(response_topic (mqtt_id m) r, p, 1, False)] else [])"
    unfolding visible_publish_response by (simp add: visible_simps)
  then show ?thesis
    by (simp add: devices.published_pub device_event.published_pub status.published_pub
        published_of_visible)
qed

text \<open>
  C21: a client comes out of \<open>np_mqtt_create\<close> fully configured. It carries the topics of its device
  id, the offline will was set on the status topic before any connection, and the calls were exactly the
  documented sequence; with TLS on, libmosquitto accepted the CA and certificate files, with it off it
  was not asked, and hostname checks were dropped only when \<open>tls_insecure\<close> says so.
\<close>

theorem mqtt_create_configured:
  assumes "run_state (np_mqtt_create E cfg cb) s = (Some m, s')"
  shows "m = new_client cfg cb \<and>
    visible (sy_trace s') = visible (sy_trace s) @
      [Mosq_lib_init, Malloc, Malloc, Malloc,
       Mosq_new (snprintf 64 ''netparent-%s'' [str (device_id cfg)]) True,
       Mosq_connect_callback_set, Mosq_disconnect_callback_set,
       Mosq_message_callback_set, Mosq_log_callback_set]
      @ auth_calls cfg
      @ (if tls_enabled cfg
         then Mosq_tls_set (tls_ca_file cfg) (tls_cert_file cfg) (tls_key_file cfg)
              # (if tls_insecure cfg then [Mosq_tls_insecure_set True] else []) else [])
      @ [Mosq_will_set (status_topic (str (device_id cfg))) offline 1 True, Mosq_reconnect_delay_set 2 120 True]
    \<and> (tls_enabled cfg \<longrightarrow>
        accepted E (Mosq_tls_set (tls_ca_file cfg) (tls_cert_file cfg) (tls_key_file cfg)) (sy_trace s'))"
  using create_SomeD [OF assms] unfolding tls_calls_def tls_call_def .

definition sample_config :: np_config where
  "sample_config = defaulted (config_initial\<lparr>tls_ca_file := Some ''/ca.crt''\<rparr>)"

lemma sample_config_fields [simp]:
  "device_id sample_config = Some ''router-1''" "nft_table sample_config = Some ''inet netparent''"
  "nft_set sample_config = Some ''blocked_macs''" "tls_enabled sample_config"
  "tls_ca_file sample_config = Some ''/ca.crt''" "username sample_config = None"
  "\<not> tls_insecure sample_config"
  by (simp_all add: sample_config_def defaulted_def config_initial_def config_zero_def)

lemma calm_answers [simp]:
  "e_malloc calm h" "e_mosq calm h = 0" "e_mosq_new calm h" "e_signal calm h" "e_loop calm h = ([], 0)"
  "e_popen calm h = Some ([], 0)" "e_system calm h = 0" "e_fopen calm h = Some []"
  "e_stat calm h = Some (1, 0)" "e_print calm h = Some ''{}''" "e_time calm h = 1700000000"
  by (simp_all add: calm_def)

lemma sample_create:
  "fst (run_state (np_mqtt_create calm sample_config cb) s) = Some (new_client sample_config cb)"
  by (simp add: np_mqtt_create_def fmtstr_def mqtt_set_auth_def mqtt_set_tls_def Let_def
      new_client_def topic_texts del: One_nat_def)

theorem mqtt_create_configured_witness:
  "accepted calm (Mosq_tls_set (Some ''/ca.crt'') (tls_cert_file sample_config) (tls_key_file sample_config))
     (sy_trace (snd (run_state (np_mqtt_create calm sample_config
        (None :: (string \<Rightarrow> string \<Rightarrow> unit \<Rightarrow> unit np) option)) sys_start)))"
proof -
  let ?r = "run_state (np_mqtt_create calm sample_config
        (None :: (string \<Rightarrow> string \<Rightarrow> unit \<Rightarrow> unit np) option)) sys_start"
  have "?r = (Some (new_client sample_config None), snd ?r)"
    by (simp add: prod_eq_iff sample_create)
  from mqtt_create_configured [OF this] show ?thesis by simp
qed

text \<open>
  C18: the network loop returns exactly when a termination signal is found at the head of some iteration;
  nothing else ends it, and no signal is missed.
\<close>

theorem run_loop_returns_iff_signalled:
  assumes "nc_stop m = 0"
  shows "(\<exists>r. run_loop E m u s = Some r) \<longleftrightarrow> (\<exists>n. signalled E (snd (loop_state E n m u s)))"
proof
  assume "\<exists>r. run_loop E m u s = Some r"
  then obtain r where "run_loop E m u s = Some r" by blast
  from run_loop_returned [OF this] assms show "\<exists>n. signalled E (snd (loop_state E n m u s))" by simp
next
  assume "\<exists>n. signalled E (snd (loop_state E n m u s))"
  with run_loop_returns_iff [OF assms] show "\<exists>r. run_loop E m u s = Some r" by blast
qed

theorem run_loop_returns_iff_signalled_witness:
  "\<exists>r. run_loop calm (new_client sample_config None) () sys_start = Some r"
proof -
  have "nc_stop (new_client sample_config (None :: (string \<Rightarrow> string \<Rightarrow> unit \<Rightarrow> unit np) option)) = 0"
    by (simp add: new_client_def)
  note iff = run_loop_returns_iff_signalled [OF this, of calm "()" sys_start]
  have "signalled calm (snd (loop_state calm 0 (new_client sample_config None) () sys_start))"
    by (simp add: signalled_def)
  with iff show ?thesis by blast
qed

lemma run_outcome:
  assumes "nm_mosq m" "nc_stop m = 0" "nm_status_topic m = Some t" "client_calls (\<lambda>_. True) m"
    and con: "run_state (run_connect E m) s = (ok, s1)"
  shows "(\<not> ok \<longrightarrow> np_mqtt_run E (Some m) u s = Some ((-1, u), s1)) \<and>
    (ok \<and> (\<forall>n. \<not> signalled E (snd (loop_state E n m u s1))) \<longrightarrow> np_mqtt_run E (Some m) u s = None) \<and>
    (ok \<and> (\<exists>n. signalled E (snd (loop_state E n m u s1))) \<longrightarrow>
      (\<exists>u' s' h l d. np_mqtt_run E (Some m) u s = Some ((0, u'), s') \<and>
         sy_trace s' = h @ [Mosq_publish t offline 1 True] @ l @ [Mosq_disconnect] @ d \<and> list_all is_log l))"
proof (intro conjI impI)
  show "np_mqtt_run E (Some m) u s = Some ((-1, u), s1)" if "\<not> ok"
    using that assms(1) con by (simp add: np_mqtt_run_def)
  show "np_mqtt_run E (Some m) u s = None"
    if "ok \<and> (\<forall>n. \<not> signalled E (snd (loop_state E n m u s1)))"
  proof -
    have "run_loop E m u s1 = None"
      using that run_loop_returned [of E m u s1] assms(2) by (cases "run_loop E m u s1") auto
    with that assms(1) con show ?thesis by (simp add: np_mqtt_run_def)
  qed
  assume a: "ok \<and> (\<exists>n. signalled E (snd (loop_state E n m u s1)))"
  then obtain m' u1 s2 where loop: "run_loop E m u s1 = Some ((m', u1), s2)" and m': "m' = stopped m"
    using run_loop_returns_iff [OF assms(2)] by blast
  obtain u2 s3 where sd: "run_state (run_shutdown E m' u1) s2 = (u2, s3)" by force
  have "\<exists>h l d. sy_trace s3 = h @ [Mosq_publish t offline 1 True] @ l @ [Mosq_disconnect] @ d \<and> list_all is_log l"
    using sd m' assms(1,3,4) by (intro shutdown_trace [of E m' u1 s2 u2 s3 t]) (simp_all add: stopped_def client_calls_def)
  with a loop sd assms(1) con show "\<exists>u' s' h l d. np_mqtt_run E (Some m) u s = Some ((0, u'), s') \<and>
      sy_trace s' = h @ [Mosq_publish t offline 1 True] @ l @ [Mosq_disconnect] @ d \<and> list_all is_log l"
    by (simp add: np_mqtt_run_def)
qed


end
