(* ===== verification/Leases.thy ===== *)
theory Leases
  imports Mqtt Nft
begin

text \<open>
  The component \<open>src/src/leases.c\<close>, \<open>src/src/leases.h\<close>: the device table rebuilt from the
  dnsmasq lease file and the nft set, the comparison with the last published table, the events and
  the snapshot. The fixed arrays with their counters are lists; their capacity is 256 and the string
  fields keep the sizes of the C arrays, which the invariant \<open>dev_wf\<close> states.
\<close>

section \<open>Devices\<close>

record dev =
  d_mac :: string
  d_ip :: string
  d_hostname :: string
  d_blocked :: int
  d_lease_expires :: int
  d_last_seen :: int

record np_leases =
  lz_path :: "string option"
  lz_cfg :: np_config
  lz_mqtt :: "np_mqtt option"
  lz_list :: "dev list"
  lz_prev :: "dev list"
  lz_last_mtime :: int
  lz_last_size :: int
  lz_first_run :: int

definition MAX_DEVICES :: nat where "MAX_DEVICES = 256"
definition HOSTNAME_LEN :: nat where "HOSTNAME_LEN = 64"
definition IP_LEN :: nat where "IP_LEN = 46"

definition devcmp :: "dev \<Rightarrow> dev \<Rightarrow> int" where
  "devcmp a b = strcmp (d_mac a) (d_mac b)"

definition str_lower :: "string \<Rightarrow> string" where
  "str_lower s = List.map (\<lambda>c. if CHR ''A'' \<le> c \<and> c \<le> CHR ''Z'' then char_of ((of_char c :: nat) + 32) else c) s"

definition np_leases_create :: "env \<Rightarrow> string option \<Rightarrow> np_config \<Rightarrow> np_mqtt option \<Rightarrow> np_leases option np" where
  "np_leases_create E path cfg mqtt = do {
     ok \<leftarrow> ask (e_malloc E) Malloc;
     if \<not> ok then ret None
     else do {
       dup \<leftarrow> ask (e_malloc E) Malloc;
       ret (Some \<lparr>lz_path = (if dup then Some (case path of Some p \<Rightarrow> p | None \<Rightarrow> ''/tmp/dhcp.leases'') else None),
                  lz_cfg = cfg, lz_mqtt = mqtt, lz_list = [], lz_prev = [], lz_last_mtime = 0,
                  lz_last_size = 0, lz_first_run = 1\<rparr>) } }"

definition np_leases_destroy :: "np_leases option \<Rightarrow> np_leases option" where
  "np_leases_destroy l = None"


section \<open>The lease file\<close>

text \<open>
  \<open>sscanf(line, "%ld %63s %45s %63s", ...)\<close>: \<open>None\<close> for fewer than three conversions; the
  host name is \<open>None\<close> when the fourth one is missing.
\<close>

definition scan_lease :: "string \<Rightarrow> (int \<times> string \<times> string \<times> string option) option" where
  "scan_lease line = (case scan_long line of
      None \<Rightarrow> None
    | Some (expiry, r1) \<Rightarrow> (case scan_word 63 r1 of
        None \<Rightarrow> None
      | Some (mac, r2) \<Rightarrow> (case scan_word (IP_LEN - 1) r2 of
          None \<Rightarrow> None
        | Some (ip, r3) \<Rightarrow> Some (expiry, mac, ip, map_option fst (scan_word (HOSTNAME_LEN - 1) r3)))))"

definition parse_lease_line :: "env \<Rightarrow> string \<Rightarrow> dev option np" where
  "parse_lease_line E line = (case scan_lease line of
      None \<Rightarrow> ret None
    | Some (expiry, mac, ip, host) \<Rightarrow> (case np_mac_normalize mac of
        None \<Rightarrow> ret None
      | Some nrm \<Rightarrow> do {
          now \<leftarrow> ask (e_time E) Time_now;
          ret (Some \<lparr>d_mac = nrm,
                     d_ip = strncpy (IP_LEN - 1) ip,
                     d_hostname = (case host of
                         Some h \<Rightarrow> if strcmp h ''*'' \<noteq> 0 then strncpy (HOSTNAME_LEN - 1) h else []
                       | None \<Rightarrow> []),
                     d_blocked = 0,
                     d_lease_expires = expiry,
                     d_last_seen = long_cast now\<rparr>) }))"

text \<open>The merge of a new entry \<open>d\<close> into the stored one \<open>e\<close>.\<close>

definition merge_dev :: "dev \<Rightarrow> dev \<Rightarrow> dev" where
  "merge_dev e d = e\<lparr>
     d_ip := (if d_ip d \<noteq> [] then d_ip d else d_ip e),
     d_hostname := (if d_hostname d \<noteq> [] then d_hostname d else d_hostname e),
     d_lease_expires := (if d_lease_expires d \<noteq> 0 then d_lease_expires d else d_lease_expires e),
     d_last_seen := (if d_last_seen d \<noteq> 0 then d_last_seen d else d_last_seen e),
     d_blocked := (if d_blocked d \<noteq> 0 then 1 else d_blocked e)\<rparr>"

fun merge_first :: "dev list \<Rightarrow> dev \<Rightarrow> dev list option" where
  "merge_first [] d = None"
| "merge_first (e # es) d =
     (if strcmp (d_mac e) (d_mac d) = 0 then Some (merge_dev e d # es)
      else map_option ((#) e) (merge_first es d))"

definition add_or_merge :: "env \<Rightarrow> dev list \<Rightarrow> dev \<Rightarrow> dev list np" where
  "add_or_merge E devs d = (case merge_first devs d of
      Some devs' \<Rightarrow> ret devs'
    | None \<Rightarrow>
        if length devs \<ge> MAX_DEVICES
        then do { LOG_WARN E ''device list full (%d), dropping %s''
                    [show_int (int MAX_DEVICES), d_mac d]; ret devs }
        else ret (devs @ [d]))"

definition add_blocked_cb :: "env \<Rightarrow> string \<Rightarrow> np_leases \<Rightarrow> np_leases np" where
  "add_blocked_cb E mac l = do {
     devs \<leftarrow> add_or_merge E (lz_list l)
       \<lparr>d_mac = str_lower (strncpy 17 mac), d_ip = [], d_hostname = [], d_blocked = 1,
        d_lease_expires = 0, d_last_seen = 0\<rparr>;
     ret (l\<lparr>lz_list := devs\<rparr>) }"


section \<open>Rebuilding the table\<close>

text \<open>The lines \<open>fgets\<close> delivers into the 512-byte buffer.\<close>

function lease_lines :: "string \<Rightarrow> string list" where
  "lease_lines s = (case fgets 512 s of None \<Rightarrow> [] | Some (l, r) \<Rightarrow> c_str l # lease_lines r)"
  by pat_completeness auto
termination
  by (relation "measure length") (auto dest: fgets_progress)

declare lease_lines.simps [simp del]

definition add_lease_line :: "env \<Rightarrow> string \<Rightarrow> np_leases \<Rightarrow> np_leases np" where
  "add_lease_line E line l = do {
     d \<leftarrow> parse_lease_line E line;
     case d of
       None \<Rightarrow> ret l
     | Some d \<Rightarrow> do { devs \<leftarrow> add_or_merge E (lz_list l) d; ret (l\<lparr>lz_list := devs\<rparr>) } }"

definition mark_blocked_dev :: "env \<Rightarrow> string \<Rightarrow> string \<Rightarrow> dev \<Rightarrow> dev np" where
  "mark_blocked_dev E table nset d =
     (if d_blocked d = 0
      then do { b \<leftarrow> np_nft_is_blocked E table nset (d_mac d);
                ret (d\<lparr>d_blocked := (if b > 0 then 1 else 0)\<rparr>) }
      else ret d)"

fun mark_blocked :: "env \<Rightarrow> string \<Rightarrow> string \<Rightarrow> dev list \<Rightarrow> dev list np" where
  "mark_blocked E table nset [] = ret []"
| "mark_blocked E table nset (d # ds) = do {
     d' \<leftarrow> mark_blocked_dev E table nset d;
     ds' \<leftarrow> mark_blocked E table nset ds;
     ret (d' # ds') }"

text \<open>\<open>qsort\<close> with \<open>devcmp\<close>: the addresses are distinct, so the sorted table is unique.\<close>

definition rebuild :: "env \<Rightarrow> np_leases \<Rightarrow> np_leases np" where
  "rebuild E l0 = do {
     fp \<leftarrow> ask (e_fopen E) (Fopen_read (lz_path l0));
     l1 \<leftarrow> (case fp of
         Some content \<Rightarrow> fold_np (add_lease_line E) (lease_lines content) (l0\<lparr>lz_list := []\<rparr>)
       | None \<Rightarrow> do { LOG_DBG E ''leases file %s not readable yet'' [str (lz_path l0)];
                      ret (l0\<lparr>lz_list := []\<rparr>) });
     r \<leftarrow> np_nft_list E (str (nft_table (lz_cfg l0))) (str (nft_set (lz_cfg l0))) (add_blocked_cb E) l1;
     devs \<leftarrow> mark_blocked E (str (nft_table (lz_cfg l0))) (str (nft_set (lz_cfg l0))) (lz_list (snd r));
     ret ((snd r)\<lparr>lz_list := sort_key d_mac devs\<rparr>) }"


section \<open>Events and snapshot\<close>

definition dev_to_json :: "dev \<Rightarrow> json" where
  "dev_to_json d = JObj [
     (''mac'', JStr (d_mac d)),
     (''ip'', JStr (d_ip d)),
     (''hostname'', JStr (d_hostname d)),
     (''blocked'', JBool (d_blocked d \<noteq> 0)),
     (''lease_expires'', JNum (of_int (double_of_long (d_lease_expires d)))),
     (''last_seen'', JNum (of_int (double_of_long (d_last_seen d))))]"

definition devs_differ :: "dev \<Rightarrow> dev \<Rightarrow> bool" where
  "devs_differ a b =
     (if strcmp (d_mac a) (d_mac b) \<noteq> 0 then True
      else if strcmp (d_ip a) (d_ip b) \<noteq> 0 then True
      else if strcmp (d_hostname a) (d_hostname b) \<noteq> 0 then True
      else if d_blocked a \<noteq> d_blocked b then True
      else if d_lease_expires a \<noteq> d_lease_expires b then True
      else False)"

definition event_json :: "string \<Rightarrow> dev option \<Rightarrow> string option \<Rightarrow> json" where
  "event_json event d mac_only = JObj (
     [(''event'', JStr event)]
     @ (case d of Some d \<Rightarrow> [(''device'', dev_to_json d)] | None \<Rightarrow> [])
     @ (case mac_only of Some m \<Rightarrow> [(''mac'', JStr m)] | None \<Rightarrow> []))"

text \<open>The source formats a topic here that nothing reads; the publisher formats its own.\<close>

definition emit_event :: "env \<Rightarrow> np_leases \<Rightarrow> string \<Rightarrow> dev option \<Rightarrow> string option \<Rightarrow> unit np" where
  "emit_event E l event d mac_only = do {
     s \<leftarrow> ask (e_print E) (Json_print (event_json event d mac_only));
     case s of
       None \<Rightarrow> ret ()
     | Some s \<Rightarrow>
         let topic = snprintf 128 ''netparent/%s/event/device'' [str (device_id (lz_cfg l))]
         in do { _ \<leftarrow> np_mqtt_publish_event E (lz_mqtt l) (Some ''device'') s; ret () } }"

fun diff_walk :: "env \<Rightarrow> np_leases \<Rightarrow> dev list \<Rightarrow> dev list \<Rightarrow> unit np" where
  "diff_walk E l (p # ps) (c # cs) =
     (let k = strcmp (d_mac p) (d_mac c) in
      if k = 0 then do {
        (if devs_differ p c then emit_event E l ''changed'' (Some c) None else ret ());
        diff_walk E l ps cs }
      else if k < 0 then do {
        emit_event E l ''removed'' None (Some (d_mac p));
        diff_walk E l ps (c # cs) }
      else do {
        emit_event E l ''added'' (Some c) None;
        diff_walk E l (p # ps) cs })"
| "diff_walk E l (p # ps) [] = do {
     emit_event E l ''removed'' None (Some (d_mac p)); diff_walk E l ps [] }"
| "diff_walk E l [] (c # cs) = do {
     emit_event E l ''added'' (Some c) None; diff_walk E l [] cs }"
| "diff_walk E l [] [] = ret ()"

definition diff_and_emit :: "env \<Rightarrow> np_leases \<Rightarrow> np_leases np" where
  "diff_and_emit E l =
     (if lz_first_run l \<noteq> 0 then ret (l\<lparr>lz_first_run := 0, lz_prev := lz_list l\<rparr>)
      else do {
        diff_walk E l (lz_prev l) (lz_list l);
        ret (l\<lparr>lz_prev := lz_list l\<rparr>) })"

definition snapshot_json :: "np_leases \<Rightarrow> int \<Rightarrow> json" where
  "snapshot_json l now = JObj [
     (''device_id'', JStr (str (device_id (lz_cfg l)))),
     (''updated_at'', JNum (of_int (double_of_long now))),
     (''devices'', JArr (List.map dev_to_json (lz_list l)))]"

definition publish_snapshot :: "env \<Rightarrow> np_leases \<Rightarrow> unit np" where
  "publish_snapshot E l = do {
     now \<leftarrow> ask (e_time E) Time_now;
     s \<leftarrow> ask (e_print E) (Json_print (snapshot_json l now));
     case s of
       None \<Rightarrow> ret ()
     | Some s \<Rightarrow> do {
         _ \<leftarrow> np_mqtt_publish_devices E (lz_mqtt l) s;
         LOG_DBG E ''published devices snapshot (%d entries)'' [show_int (int (length (lz_list l)))] } }"

definition np_leases_republish :: "env \<Rightarrow> np_leases option \<Rightarrow> np_leases option np" where
  "np_leases_republish E l = (case l of
      None \<Rightarrow> ret None
    | Some l \<Rightarrow> do {
        l1 \<leftarrow> rebuild E l;
        l2 \<leftarrow> diff_and_emit E l1;
        publish_snapshot E l2;
        ret (Some l2) })"

definition np_leases_poll :: "env \<Rightarrow> np_leases option \<Rightarrow> np_leases option np" where
  "np_leases_poll E l = (case l of
      None \<Rightarrow> ret None
    | Some l \<Rightarrow> do {
        st \<leftarrow> ask (e_stat E) (Stat_file (lz_path l));
        let (l', changed) = (case st of
            Some (mtime, sz) \<Rightarrow>
              if mtime \<noteq> lz_last_mtime l \<or> sz \<noteq> lz_last_size l
              then (l\<lparr>lz_last_mtime := mtime, lz_last_size := sz\<rparr>, True) else (l, False)
          | None \<Rightarrow> (l, False));
        if changed \<or> lz_first_run l' \<noteq> 0 then np_leases_republish E (Some l') else ret (Some l') })"


section \<open>Parsing a line\<close>

text \<open>\<open>parse_lease_line\<close> with the time it reads as an argument.\<close>

definition host_text :: "string option \<Rightarrow> string" where
  "host_text host = (case host of None \<Rightarrow> [] | Some h \<Rightarrow> if h = ''*'' then [] else h)"

definition lease_dev :: "int \<Rightarrow> string \<Rightarrow> dev option" where
  "lease_dev now line = (case scan_lease line of
      None \<Rightarrow> None
    | Some (expiry, mac, ip, host) \<Rightarrow> (case np_mac_normalize mac of
        None \<Rightarrow> None
      | Some nrm \<Rightarrow> Some \<lparr>d_mac = nrm, d_ip = ip,
          d_hostname = host_text host,
          d_blocked = 0, d_lease_expires = expiry, d_last_seen = now\<rparr>))"

definition lease_mac :: "string \<Rightarrow> string option" where
  "lease_mac line = map_option d_mac (lease_dev 0 line)"

text \<open>The bounds of the C arrays, the range of the integers, and the canonical address.\<close>

definition dev_wf :: "dev \<Rightarrow> bool" where
  "dev_wf d \<longleftrightarrow> canonical_mac (d_mac d) \<and> length (d_ip d) < IP_LEN \<and> length (d_hostname d) < HOSTNAME_LEN
     \<and> (d_blocked d = 0 \<or> d_blocked d = 1) \<and> is_long (d_lease_expires d)"

lemma is_long_scan_long: "scan_long s = Some (v, r) \<Longrightarrow> is_long v"
  by (auto simp: scan_long_def Let_def split: prod.splits if_splits)

lemma scan_lease_bounds:
  assumes "scan_lease line = Some (expiry, mac, ip, host)"
  shows "is_long expiry" "length mac \<le> 63" "length ip < IP_LEN" "length (host_text host) < HOSTNAME_LEN"
    "host = Some h \<Longrightarrow> length h < HOSTNAME_LEN"
  using assms
  by (auto simp: scan_lease_def host_text_def IP_LEN_def HOSTNAME_LEN_def is_long_scan_long
      dest!: length_scan_word split: option.splits prod.splits)

lemma run_parse_lease_line:
  "run_state (parse_lease_line E line) s =
     (if lease_mac line = None then (None, s)
      else (lease_dev (long_cast (e_time E (sy_trace s @ [Time_now]))) line, s\<lparr>sy_trace := sy_trace s @ [Time_now]\<rparr>))"
proof (cases "scan_lease line")
  case None
  then show ?thesis by (simp add: parse_lease_line_def lease_mac_def lease_dev_def)
next
  case (Some a)
  obtain expiry mac ip host where a: "a = (expiry, mac, ip, host)" by (cases a) auto
  note bounds = scan_lease_bounds [OF Some [unfolded a]]
  have b: "strncpy (IP_LEN - 1) ip = ip"
    using bounds(3) by (simp add: strncpy_def IP_LEN_def)
  have h: "(case host of Some h \<Rightarrow> if strcmp h ''*'' \<noteq> 0 then strncpy (HOSTNAME_LEN - 1) h else []
      | None \<Rightarrow> []) = host_text host"
    using bounds(5) by (auto simp: host_text_def strncpy_def split: option.splits)
  show ?thesis
    using Some a by (simp add: parse_lease_line_def lease_mac_def lease_dev_def h b [simplified] split: option.splits)
qed

lemma lease_dev_mac: "map_option d_mac (lease_dev now line) = lease_mac line"
  by (simp add: lease_mac_def lease_dev_def split: option.splits prod.splits)

lemma lease_dev_wf: "lease_dev now line = Some d \<Longrightarrow> dev_wf d \<and> d_blocked d = 0 \<and> d_last_seen d = now"
proof -
  assume l: "lease_dev now line = Some d"
  then obtain expiry mac ip host nrm where sc: "scan_lease line = Some (expiry, mac, ip, host)"
    and n: "np_mac_normalize mac = Some nrm"
    and d: "d = \<lparr>d_mac = nrm, d_ip = ip, d_hostname = host_text host,
          d_blocked = 0, d_lease_expires = expiry, d_last_seen = now\<rparr>"
    by (auto simp: lease_dev_def split: option.splits)
  from scan_lease_bounds [OF sc] mac.canonical [OF n] show ?thesis
    by (simp add: d dev_wf_def HOSTNAME_LEN_def)
qed

lemma emits_parse_lease_line: "P Time_now \<Longrightarrow> emits P (parse_lease_line E line)"
  unfolding parse_lease_line_def by (auto intro!: emits_rules split: option.splits)


section \<open>The table\<close>

text \<open>\<open>add_or_merge\<close> without its warning, and the entry of an address.\<close>

definition add_dev :: "dev list \<Rightarrow> dev \<Rightarrow> dev list" where
  "add_dev devs d = (case merge_first devs d of
      Some devs' \<Rightarrow> devs'
    | None \<Rightarrow> if length devs \<ge> MAX_DEVICES then devs else devs @ [d])"

fun look :: "dev list \<Rightarrow> string \<Rightarrow> dev option" where
  "look [] m = None"
| "look (e # es) m = (if d_mac e = m then Some e else look es m)"

definition macs :: "dev list \<Rightarrow> string list" where
  "macs devs = List.map d_mac devs"

definition table_wf :: "dev list \<Rightarrow> bool" where
  "table_wf devs \<longleftrightarrow> list_all dev_wf devs \<and> distinct (macs devs) \<and> length devs \<le> MAX_DEVICES"

definition merge_opt :: "dev option \<Rightarrow> dev \<Rightarrow> dev" where
  "merge_opt e d = (case e of None \<Rightarrow> d | Some e \<Rightarrow> merge_dev e d)"

lemma run_add_or_merge:
  "fst (run_state (add_or_merge E devs d) s) = add_dev devs d"
  by (auto simp: add_or_merge_def add_dev_def split: option.splits)

lemma emits_add_or_merge [emits_rules]: "(\<And>c. is_log c \<Longrightarrow> P c) \<Longrightarrow> emits P (add_or_merge E devs d)"
  unfolding add_or_merge_def by (intro emits_rules) auto

lemma merge_dev_mac [simp]: "d_mac (merge_dev e d) = d_mac e"
  by (simp add: merge_dev_def)

lemma merge_dev_wf: "dev_wf e \<Longrightarrow> dev_wf d \<Longrightarrow> dev_wf (merge_dev e d)"
  by (simp add: dev_wf_def merge_dev_def)

lemma look_None: "look devs m = None \<longleftrightarrow> m \<notin> set (macs devs)"
  by (induction devs) (auto simp: macs_def)

lemma look_Some: "look devs m = Some d \<Longrightarrow> d \<in> set devs \<and> d_mac d = m"
  by (induction devs) (auto split: if_splits)

lemma look_in: "distinct (macs devs) \<Longrightarrow> d \<in> set devs \<Longrightarrow> look devs (d_mac d) = Some d"
  by (induction devs) (auto simp: macs_def)

lemma look_append: "look (xs @ ys) m = (case look xs m of None \<Rightarrow> look ys m | Some d \<Rightarrow> Some d)"
  by (induction xs) auto

lemma merge_first_None: "merge_first devs d = None \<longleftrightarrow> look devs (d_mac d) = None"
  by (induction devs) auto

lemma merge_first_Some:
  "merge_first devs d = Some devs' \<Longrightarrow> macs devs' = macs devs \<and>
     look devs' m = (if m = d_mac d then map_option (\<lambda>e. merge_dev e d) (look devs m) else look devs m) \<and>
     (list_all dev_wf devs \<longrightarrow> dev_wf d \<longrightarrow> list_all dev_wf devs')"
proof (induction devs arbitrary: devs')
  case Nil
  then show ?case by simp
next
  case (Cons e es)
  show ?case
  proof (cases "d_mac e = d_mac d")
    case True
    with Cons.prems have "devs' = merge_dev e d # es" by simp
    with True show ?thesis by (simp add: macs_def merge_dev_wf)
  next
    case False
    with Cons.prems obtain es' where es: "merge_first es d = Some es'" "devs' = e # es'" by auto
    from Cons.IH [OF es(1)] es(2) False show ?thesis by (cases "m = d_mac d") (simp_all add: macs_def)
  qed
qed

lemma length_macs [simp]: "length (macs devs) = length devs"
  by (simp add: macs_def)

lemma macs_add_dev:
  "macs (add_dev devs d) = macs devs @
     (if d_mac d \<in> set (macs devs) \<or> length devs \<ge> MAX_DEVICES then [] else [d_mac d])"
proof (cases "merge_first devs d")
  case None
  then show ?thesis
    using merge_first_None [of devs d] look_None [of devs "d_mac d"] by (simp add: add_dev_def macs_def)
next
  case (Some devs')
  then have "d_mac d \<in> set (macs devs)"
    using merge_first_None [of devs d] look_None [of devs "d_mac d"] by simp
  with Some merge_first_Some [OF Some] show ?thesis by (simp add: add_dev_def)
qed

lemma look_add_dev:
  "look (add_dev devs d) m =
     (if m = d_mac d \<and> (look devs m \<noteq> None \<or> length devs < MAX_DEVICES)
      then Some (merge_opt (look devs m) d) else look devs m)"
proof (cases "merge_first devs d")
  case None
  then have "look devs (d_mac d) = None" using merge_first_None by blast
  with None show ?thesis
    by (auto simp: add_dev_def look_append merge_opt_def split: option.splits)
next
  case (Some devs')
  then have "look devs (d_mac d) \<noteq> None" using merge_first_None [of devs d] by simp
  with Some merge_first_Some [OF Some, of m] show ?thesis
    by (auto simp: add_dev_def merge_opt_def split: option.splits)
qed

lemma table_wf_add_dev: "table_wf devs \<Longrightarrow> dev_wf d \<Longrightarrow> table_wf (add_dev devs d)"
proof -
  assume t: "table_wf devs" and d: "dev_wf d"
  have "list_all dev_wf (add_dev devs d)"
    using t d merge_first_Some [of devs d]
    by (auto simp: add_dev_def table_wf_def split: option.splits)
  moreover have "distinct (macs (add_dev devs d))"
    using t by (auto simp: macs_add_dev table_wf_def)
  moreover have "length (macs (add_dev devs d)) \<le> MAX_DEVICES"
    using t by (auto simp: macs_add_dev table_wf_def simp del: length_macs) (auto simp: macs_def)
  ultimately show ?thesis by (simp add: table_wf_def)
qed


section \<open>The store interface\<close>

text \<open>
  What rebuilding relies on: adding an entry keeps the invariant and changes at most the entry of its
  address, by a merge when it is there, and by insertion while fewer than \<open>cap\<close> addresses are.
\<close>

definition merge_all :: "dev option \<Rightarrow> dev list \<Rightarrow> dev option" where
  "merge_all e ds = foldl (\<lambda>e d. Some (merge_opt e d)) e ds"

lemma merge_all_Nil [simp]: "merge_all e [] = e"
  and merge_all_Cons [simp]: "merge_all e (d # ds) = merge_all (Some (merge_opt e d)) ds"
  by (simp_all add: merge_all_def)

lemma merge_all_Some: "merge_all (Some e) ds \<noteq> None"
  by (induction ds arbitrary: e) auto

lemma merge_all_None: "merge_all e ds = None \<longleftrightarrow> e = None \<and> ds = []"
  by (cases ds) (auto simp: merge_all_Some)

locale device_store =
  fixes add :: "'t \<Rightarrow> dev \<Rightarrow> 't" and entry :: "'t \<Rightarrow> string \<Rightarrow> dev option" and ok :: "'t \<Rightarrow> bool"
    and cap :: nat
  assumes ok_add: "ok t \<Longrightarrow> dev_wf d \<Longrightarrow> ok (add t d)"
    and finite_entries: "finite (dom (entry t))"
    and within: "ok t \<Longrightarrow> card (dom (entry t)) \<le> cap"
    and entry_add: "ok t \<Longrightarrow> entry (add t d) m =
      (if m = d_mac d \<and> (entry t m \<noteq> None \<or> card (dom (entry t)) < cap)
       then Some (merge_opt (entry t m) d) else entry t m)"
begin

lemma ok_fold: "ok t \<Longrightarrow> list_all dev_wf ds \<Longrightarrow> ok (foldl add t ds)"
  by (induction ds arbitrary: t) (simp_all add: ok_add)

lemma dom_add: "ok t \<Longrightarrow> dom (entry (add t d)) =
    (if entry t (d_mac d) \<noteq> None \<or> card (dom (entry t)) < cap
     then insert (d_mac d) (dom (entry t)) else dom (entry t))"
  by (auto simp: entry_add dom_def)

lemma dom_fold_subset:
  "ok t \<Longrightarrow> list_all dev_wf ds \<Longrightarrow> dom (entry (foldl add t ds)) \<subseteq> dom (entry t) \<union> d_mac ` set ds"
proof (induction ds arbitrary: t)
  case (Cons d ds)
  then have "dom (entry (foldl add (add t d) ds)) \<subseteq> dom (entry (add t d)) \<union> d_mac ` set ds"
    by (simp add: ok_add)
  also have "\<dots> \<subseteq> dom (entry t) \<union> d_mac ` set (d # ds)"
    using Cons.prems(1) by (auto simp: dom_add split: if_splits)
  finally show ?case by simp
qed simp

lemma room_add:
  assumes "ok t" "card (dom (entry t) \<union> d_mac ` set (d # ds)) \<le> cap"
  shows "entry t (d_mac d) \<noteq> None \<or> card (dom (entry t)) < cap"
proof (cases "entry t (d_mac d)")
  case None
  then have "insert (d_mac d) (dom (entry t)) \<subseteq> dom (entry t) \<union> d_mac ` set (d # ds)"
    by auto
  then have "card (insert (d_mac d) (dom (entry t))) \<le> cap"
    using assms(2) card_mono [of "dom (entry t) \<union> d_mac ` set (d # ds)"] finite_entries
    by (meson finite_UnI finite_imageI finite_set order_trans)
  with None finite_entries [of t] show ?thesis by (simp add: domIff)
qed simp

lemma entry_fold:
  "ok t \<Longrightarrow> list_all dev_wf ds \<Longrightarrow> card (dom (entry t) \<union> d_mac ` set ds) \<le> cap \<Longrightarrow>
   entry (foldl add t ds) m = merge_all (entry t m) (filter (\<lambda>d. d_mac d = m) ds)"
proof (induction ds arbitrary: t)
  case (Cons d ds)
  note room = room_add [OF Cons.prems(1,3)]
  then have "dom (entry (add t d)) \<union> d_mac ` set ds = dom (entry t) \<union> d_mac ` set (d # ds)"
    using Cons.prems(1) by (auto simp: dom_add)
  with Cons.prems have "card (dom (entry (add t d)) \<union> d_mac ` set ds) \<le> cap" by simp
  from Cons.IH [OF _ _ this] Cons.prems(1,2)
  have "entry (foldl add (add t d) ds) m = merge_all (entry (add t d) m) (filter (\<lambda>d. d_mac d = m) ds)"
    by (simp add: ok_add)
  with room Cons.prems(1) show ?case by (auto simp: entry_add)
qed simp

lemma dom_fold:
  assumes "ok t" "list_all dev_wf ds" "card (dom (entry t) \<union> d_mac ` set ds) \<le> cap"
  shows "dom (entry (foldl add t ds)) = dom (entry t) \<union> d_mac ` set ds"
proof -
  have "m \<in> dom (entry (foldl add t ds)) \<longleftrightarrow> m \<in> dom (entry t) \<or> m \<in> d_mac ` set ds" for m
    by (auto simp: domIff entry_fold [OF assms] merge_all_None filter_empty_conv)
  then show ?thesis by blast
qed

end

lemma dom_look: "dom (look devs) = set (macs devs)"
  using look_None [of devs] by (auto simp: dom_def)

interpretation store: device_store add_dev look table_wf MAX_DEVICES
proof unfold_locales
  fix t :: "dev list" and d m
  show "table_wf t \<Longrightarrow> dev_wf d \<Longrightarrow> table_wf (add_dev t d)" by (rule table_wf_add_dev)
  show "finite (dom (look t))" by (simp add: dom_look)
  show "card (dom (look t)) \<le> MAX_DEVICES" if "table_wf t"
    using that distinct_card [of "macs t"] by (simp add: dom_look table_wf_def)
  show "look (add_dev t d) m = (if m = d_mac d \<and> (look t m \<noteq> None \<or> card (dom (look t)) < MAX_DEVICES)
      then Some (merge_opt (look t m) d) else look t m)" if "table_wf t"
    using that distinct_card [of "macs t"] look_add_dev [of t d m] by (simp add: dom_look table_wf_def)
qed


section \<open>What rebuild reads\<close>

text \<open>The entries of the valid lines, each at the time it was read.\<close>

definition read_as :: "string list \<Rightarrow> dev list \<Rightarrow> bool" where
  "read_as ls ds = list_all2 (\<lambda>l d. \<exists>now. lease_dev now l = Some d) (filter (\<lambda>l. lease_mac l \<noteq> None) ls) ds"

definition blocked_dev :: "string \<Rightarrow> dev" where
  "blocked_dev m = \<lparr>d_mac = m, d_ip = [], d_hostname = [], d_blocked = 1, d_lease_expires = 0,
     d_last_seen = 0\<rparr>"

lemma read_as_facts:
  "read_as ls ds \<Longrightarrow> list_all dev_wf ds \<and> list_all (\<lambda>d. d_blocked d = 0) ds
     \<and> macs ds = List.map_filter lease_mac ls"
proof (induction ls arbitrary: ds)
  case Nil
  then show ?case by (simp add: read_as_def macs_def List.map_filter_def)
next
  case (Cons l ls)
  show ?case
  proof (cases "lease_mac l = None")
    case True
    with Cons show ?thesis by (simp add: read_as_def List.map_filter_def)
  next
    case False
    with Cons.prems obtain d ds' now where d: "ds = d # ds'" "lease_dev now l = Some d" "read_as ls ds'"
      by (auto simp: read_as_def list_all2_Cons1)
    then have "lease_mac l = Some (d_mac d)" using lease_dev_mac [of now l] by simp
    with Cons.IH [OF d(3)] lease_dev_wf [OF d(2)] d(1) show ?thesis
      by (simp add: macs_def List.map_filter_def)
  qed
qed

lemma run_add_lease_line:
  "fst (run_state (add_lease_line E line l) s) =
     (case (if lease_mac line = None then None
            else lease_dev (long_cast (e_time E (sy_trace s @ [Time_now]))) line) of
        None \<Rightarrow> l | Some d \<Rightarrow> l\<lparr>lz_list := add_dev (lz_list l) d\<rparr>)"
  by (auto simp: add_lease_line_def run_parse_lease_line run_add_or_merge case_prod_beta split: option.splits)

lemma run_lease_lines:
  "\<exists>ds. read_as ls ds \<and>
     fst (run_state (fold_np (add_lease_line E) ls l) s) = l\<lparr>lz_list := foldl add_dev (lz_list l) ds\<rparr>"
proof (induction ls arbitrary: l s)
  case Nil
  then show ?case by (auto simp: read_as_def)
next
  case (Cons line ls)
  obtain l1 s1 where r: "run_state (add_lease_line E line l) s = (l1, s1)" by force
  then have l1: "l1 = fst (run_state (add_lease_line E line l) s)" by simp
  obtain ds where ds: "read_as ls ds"
    "fst (run_state (fold_np (add_lease_line E) ls l1) s1) = l1\<lparr>lz_list := foldl add_dev (lz_list l1) ds\<rparr>"
    using Cons.IH by blast
  show ?case
  proof (cases "lease_mac line = None")
    case True
    with l1 have "l1 = l" by (simp add: run_add_lease_line)
    with True ds r show ?thesis by (intro exI [of _ ds]) (simp add: read_as_def)
  next
    case False
    let ?now = "long_cast (e_time E (sy_trace s @ [Time_now]))"
    from False obtain d where d: "lease_dev ?now line = Some d"
      using lease_dev_mac [of ?now line] by (cases "lease_dev ?now line") auto
    with False ds(1) have "read_as (line # ls) (d # ds)" by (auto simp: read_as_def)
    moreover have "l1 = l\<lparr>lz_list := add_dev (lz_list l) d\<rparr>"
      using l1 False d by (simp add: run_add_lease_line)
    ultimately show ?thesis using ds(2) r by (intro exI [of _ "d # ds"]) simp
  qed
qed

lemma str_lower_tolower: "str_lower s = List.map tolower s"
  by (simp add: str_lower_def tolower_def less_eq_char_def Let_def)

lemma run_add_blocked_cb:
  "canonical_mac m \<Longrightarrow>
   fst (run_state (add_blocked_cb E m l) s) = l\<lparr>lz_list := add_dev (lz_list l) (blocked_dev m)\<rparr>"
proof -
  assume c: "canonical_mac m"
  then have "str_lower (strncpy 17 m) = m"
    using map_tolower_canonical [OF c] by (simp add: str_lower_tolower strncpy_def canonical_mac_def)
  then show ?thesis
    by (simp add: add_blocked_cb_def blocked_dev_def case_prod_beta run_add_or_merge)
qed

lemma run_blocked_cbs:
  "list_all canonical_mac ms \<Longrightarrow> fst (run_state (fold_np (add_blocked_cb E) ms l) s) =
     l\<lparr>lz_list := foldl add_dev (lz_list l) (List.map blocked_dev ms)\<rparr>"
proof (induction ms arbitrary: l s)
  case (Cons m ms)
  then show ?case
    using run_add_blocked_cb [of m E l s] by (simp add: case_prod_beta)
qed simp

lemma blocked_dev_facts [simp]:
  "d_mac (blocked_dev m) = m" "canonical_mac m \<Longrightarrow> dev_wf (blocked_dev m)" "d_blocked (blocked_dev m) = 1"
  by (simp_all add: blocked_dev_def dev_wf_def IP_LEN_def HOSTNAME_LEN_def is_long_def LONG_MIN_def
      LONG_MAX_def)


section \<open>Rebuilding, as one relation\<close>

text \<open>
  \<open>asked E n cmd t rc\<close>: after its first \<open>n\<close> calls the trace \<open>t\<close> contains the call
  \<open>system(cmd)\<close>, answered \<open>rc\<close>. A device keeps a set flag, and else takes the answer of the query for its address.
\<close>

definition asked :: "env \<Rightarrow> nat \<Rightarrow> string \<Rightarrow> history \<Rightarrow> int \<Rightarrow> bool" where
  "asked E n cmd t rc \<longleftrightarrow> (\<exists>h u. t = h @ [System cmd] @ u \<and> n \<le> length h \<and> e_system E (h @ [System cmd]) = rc)"

definition marked :: "env \<Rightarrow> nat \<Rightarrow> string \<Rightarrow> string \<Rightarrow> history \<Rightarrow> dev \<Rightarrow> dev \<Rightarrow> bool" where
  "marked E n table nset t d d' \<longleftrightarrow>
     (if d_blocked d \<noteq> 0 then d' = d
      else \<exists>rc. asked E n (get_cmd table nset (d_mac d)) t rc \<and>
             d' = d\<lparr>d_blocked := (if rc = 0 then 1 else 0)\<rparr>)"

lemma asked_append: "asked E n cmd t rc \<Longrightarrow> asked E n cmd (t @ u) rc"
  unfolding asked_def by (metis append.assoc)

lemma marked_append: "marked E n table nset t d d' \<Longrightarrow> marked E n table nset (t @ u) d d'"
  unfolding marked_def using asked_append by (auto split: if_splits)

lemma marked_facts:
  "marked E n table nset t d d' \<Longrightarrow> d_mac d' = d_mac d \<and> (dev_wf d \<longrightarrow> dev_wf d')"
  by (auto simp: marked_def dev_wf_def split: if_splits)

lemma run_is_blocked:
  "canonical_mac m \<Longrightarrow> run_state (np_nft_is_blocked E table nset m) s =
     (let t = sy_trace s @ [System (get_cmd table nset m)]; rc = e_system E t
      in (if rc = -1 then -1 else if rc = 0 then 1 else 0, s\<lparr>sy_trace := t\<rparr>))"
  by (simp add: np_nft_is_blocked_def get_cmd_def mac.fixed Let_def)

lemma run_mark_blocked_dev:
  assumes "canonical_mac (d_mac d)" "n \<le> length (sy_trace s)" "run_state (mark_blocked_dev E table nset d) s = (d', s')"
  shows "marked E n table nset (sy_trace s') d d'"
proof (cases "d_blocked d = 0")
  case True
  let ?t = "sy_trace s @ [System (get_cmd table nset (d_mac d))]"
  have "asked E n (get_cmd table nset (d_mac d)) ?t (e_system E ?t)"
    unfolding asked_def using assms(2) by (intro exI [of _ "sy_trace s"] exI [of _ "[]"]) simp
  moreover have "sy_trace s' = ?t" "d' = d\<lparr>d_blocked := (if e_system E ?t = 0 then 1 else 0)\<rparr>"
    using assms True by (auto simp: mark_blocked_dev_def run_is_blocked Let_def)
  ultimately show ?thesis using True by (auto simp: marked_def)
next
  case False
  with assms show ?thesis by (simp add: mark_blocked_dev_def marked_def)
qed

lemma emits_mark_blocked_dev:
  "(\<And>c. nft_query table nset c \<Longrightarrow> P c) \<Longrightarrow> emits P (mark_blocked_dev E table nset d)"
  unfolding mark_blocked_dev_def
  by (intro emits_rules emits_mono [OF emits_is_blocked_query [of table nset]]) auto

lemma emits_mark_blocked:
  "(\<And>c. nft_query table nset c \<Longrightarrow> P c) \<Longrightarrow> emits P (mark_blocked E table nset ds)"
  by (induction ds) (auto intro!: emits_rules emits_mark_blocked_dev)

lemma run_mark_blocked:
  assumes "list_all dev_wf ds" "n \<le> length (sy_trace s)" "run_state (mark_blocked E table nset ds) s = (ds', s')"
  shows "list_all2 (marked E n table nset (sy_trace s')) ds ds'"
  using assms
proof (induction ds arbitrary: s ds' s')
  case (Cons d ds)
  obtain d1 s1 where r1: "run_state (mark_blocked_dev E table nset d) s = (d1, s1)" by force
  obtain ds1 s2 where r2: "run_state (mark_blocked E table nset ds) s1 = (ds1, s2)" by force
  from Cons.prems r1 r2 have e: "ds' = d1 # ds1" "s' = s2" by simp_all
  have "marked E n table nset (sy_trace s1) d d1"
    using Cons.prems(1,2) by (intro run_mark_blocked_dev [OF _ _ r1]) (simp_all add: dev_wf_def)
  moreover obtain t where "s2 = s1\<lparr>sy_trace := sy_trace s1 @ t\<rparr>"
    using emitsE [OF emits_mark_blocked [of table nset "\<lambda>_. True"] r2] by blast
  moreover obtain t1 where "s1 = s\<lparr>sy_trace := sy_trace s @ t1\<rparr>"
    using emitsE [OF emits_mark_blocked_dev [of table nset "\<lambda>_. True"] r1] by blast
  ultimately have "marked E n table nset (sy_trace s2) d d1" "n \<le> length (sy_trace s1)"
    using marked_append [of E n table nset "sy_trace s1" d d1] Cons.prems(2) by simp_all
  with Cons.IH [OF _ _ r2] Cons.prems(1) e show ?case by simp
qed simp

lemma emits_add_lease_line [emits_rules]:
  "(\<And>c. is_log c \<Longrightarrow> P c) \<Longrightarrow> emits P (add_lease_line E line l)"
  unfolding add_lease_line_def by (intro emits_rules emits_parse_lease_line) auto

lemma emits_add_blocked_cb [emits_rules]:
  "(\<And>c. is_log c \<Longrightarrow> P c) \<Longrightarrow> emits P (add_blocked_cb E m l)"
  unfolding add_blocked_cb_def by (intro emits_rules) auto

abbreviation lz_table :: "np_leases \<Rightarrow> string" where "lz_table l \<equiv> str (nft_table (lz_cfg l))"
abbreviation lz_nset :: "np_leases \<Rightarrow> string" where "lz_nset l \<equiv> str (nft_set (lz_cfg l))"

text \<open>The lines of the lease file and the addresses of the listing, as the outside answered.\<close>

definition file_lines :: "env \<Rightarrow> np_leases \<Rightarrow> sys \<Rightarrow> string list" where
  "file_lines E l s = (case e_fopen E (sy_trace s @ [Fopen_read (lz_path l)]) of
      None \<Rightarrow> [] | Some content \<Rightarrow> lease_lines content)"

definition listing :: "env \<Rightarrow> string \<Rightarrow> history \<Rightarrow> string list" where
  "listing E cmd h = (case e_popen E (h @ [Popen_read cmd]) of
      None \<Rightarrow> [] | Some (out, _) \<Rightarrow> scan_macs (nft_fill [] out))"

definition rebuilt :: "env \<Rightarrow> np_leases \<Rightarrow> sys \<Rightarrow> dev list \<Rightarrow> string list \<Rightarrow> dev list \<Rightarrow> sys \<Rightarrow> bool" where
  "rebuilt E l s ds ms devs s' \<longleftrightarrow> read_as (file_lines E l s) ds \<and>
     (\<exists>h u. sy_trace s' = h @ [Popen_read (list_cmd (lz_table l) (lz_nset l))] @ u \<and>
        length (sy_trace s) \<le> length h \<and> ms = listing E (list_cmd (lz_table l) (lz_nset l)) h) \<and>
     list_all2 (marked E (length (sy_trace s)) (lz_table l) (lz_nset l) (sy_trace s'))
       (foldl add_dev [] (ds @ List.map blocked_dev ms)) devs"

lemma table_wf_Nil [simp]: "table_wf []"
  by (simp add: table_wf_def macs_def)

lemma run_np_nft_list:
  fixes cb :: "string \<Rightarrow> 'u \<Rightarrow> 'u np"
  obtains s' where "s' = s\<lparr>sy_trace := sy_trace s @ [Popen_read (list_cmd table nset)]\<rparr>"
    "snd (fst (run_state (np_nft_list E table nset cb u) s)) =
       fst (run_state (fold_np cb (listing E (list_cmd table nset) (sy_trace s)) u) s')"
    "snd (run_state (np_nft_list E table nset cb u) s) =
       snd (run_state (fold_np cb (listing E (list_cmd table nset) (sy_trace s)) u) s')"
proof (rule that [OF refl])
qed (auto simp: np_nft_list_def list_cmd_def [symmetric] listing_def Let_def case_prod_beta
    split: option.splits)

lemma listing_canonical: "list_all canonical_mac (listing E cmd h)"
  by (auto simp: listing_def scan_macs_canonical split: option.splits)

lemma added_wf:
  assumes "read_as ls ds" "list_all canonical_mac ms"
  shows "table_wf (foldl add_dev [] (ds @ List.map blocked_dev ms))"
proof (rule store.ok_fold)
  show "list_all dev_wf (ds @ List.map blocked_dev ms)"
    using read_as_facts [OF assms(1)] assms(2) by (auto simp: list_all_iff)
qed simp

lemma run_rebuild:
  assumes "run_state (rebuild E l) s = (l', s')"
  obtains ds ms devs where "rebuilt E l s ds ms devs s'" "l' = l\<lparr>lz_list := sort_key d_mac devs\<rparr>"
proof -
  let ?table = "lz_table l" and ?nset = "lz_nset l"
  let ?s1 = "s\<lparr>sy_trace := sy_trace s @ [Fopen_read (lz_path l)]\<rparr>"
  let ?read = "case e_fopen E (sy_trace ?s1) of
         Some content \<Rightarrow> fold_np (add_lease_line E) (lease_lines content) (l\<lparr>lz_list := []\<rparr>)
       | None \<Rightarrow> do { LOG_DBG E ''leases file %s not readable yet'' [str (lz_path l)];
                      ret (l\<lparr>lz_list := []\<rparr>) }"
  obtain l2 s2 where r2: "run_state ?read ?s1 = (l2, s2)" by force
  obtain ds where ds: "read_as (file_lines E l s) ds" "l2 = l\<lparr>lz_list := foldl add_dev [] ds\<rparr>"
    using r2 run_lease_lines [of _ E "l\<lparr>lz_list := []\<rparr>" ?s1]
    by (cases "e_fopen E (sy_trace ?s1)") (fastforce simp: file_lines_def read_as_def)+
  let ?cmd = "list_cmd ?table ?nset" and ?ms = "listing E (list_cmd ?table ?nset) (sy_trace s2)"
  obtain r3 s3 where r3: "run_state (np_nft_list E ?table ?nset (add_blocked_cb E) l2) s2 = (r3, s3)"
    by (metis surj_pair)
  obtain s2' where s2': "s2' = s2\<lparr>sy_trace := sy_trace s2 @ [Popen_read ?cmd]\<rparr>"
    "snd r3 = fst (run_state (fold_np (add_blocked_cb E) ?ms l2) s2')"
    "s3 = snd (run_state (fold_np (add_blocked_cb E) ?ms l2) s2')"
    using run_np_nft_list [where s = s2 and E = E and table = ?table and nset = ?nset
        and cb = "add_blocked_cb E" and u = l2] r3 by auto
  have l3: "snd r3 = l\<lparr>lz_list := foldl add_dev [] (ds @ List.map blocked_dev ?ms)\<rparr>"
    using s2'(2) ds(2) run_blocked_cbs [of ?ms E l2 s2'] listing_canonical by simp
  have "emits is_log (fold_np (add_blocked_cb E) ?ms l2)" by (intro emits_rules) simp
  then obtain u3 where u3: "sy_trace s3 = sy_trace s2' @ u3"
    using emits_trace [of is_log _ s2'] s2'(3) by blast
  obtain devs s4 where r4: "run_state (mark_blocked E ?table ?nset (lz_list (snd r3))) s3 = (devs, s4)" by force
  obtain u4 where u4: "s4 = s3\<lparr>sy_trace := sy_trace s3 @ u4\<rparr>"
    using emitsE [OF emits_mark_blocked [of ?table ?nset "\<lambda>_. True"] r4] by blast
  have fin: "l' = l\<lparr>lz_list := sort_key d_mac devs\<rparr>" "s' = s4"
    using assms r2 r3 r4 l3 by (simp_all add: rebuild_def)
  have "emits (\<lambda>_. True) ?read"
    by (intro emits_rules) simp_all
  then obtain u2 where u2: "sy_trace s2 = sy_trace ?s1 @ u2"
    using emits_trace [of "\<lambda>_. True" _ ?s1] r2 by fastforce
  then have len: "length (sy_trace s) \<le> length (sy_trace s2)" "length (sy_trace s) \<le> length (sy_trace s3)"
    using u3 s2'(1) by simp_all
  have "list_all dev_wf (lz_list (snd r3))"
    using added_wf [OF ds(1) listing_canonical] by (simp add: l3 table_wf_def)
  from run_mark_blocked [OF this _ r4, of "length (sy_trace s)"] len fin l3 have "list_all2 (marked E (length (sy_trace s)) ?table ?nset (sy_trace s'))
      (foldl add_dev [] (ds @ List.map blocked_dev ?ms)) devs" by simp
  moreover have "sy_trace s' = sy_trace s2 @ [Popen_read ?cmd] @ u3 @ u4"
    using fin u4 u3 s2'(1) by simp
  ultimately have "rebuilt E l s ds ?ms devs s'"
    unfolding rebuilt_def using ds(1) len(1) by blast
  with fin(1) that show thesis by blast
qed


lemma look_same_set: "distinct (macs xs) \<Longrightarrow> distinct (macs ys) \<Longrightarrow> set xs = set ys \<Longrightarrow> look xs m = look ys m"
proof (cases "look xs m")
  case None
  assume "set xs = set ys"
  with None have "look ys m = None" by (simp add: look_None macs_def)
  with None show ?thesis by simp
next
  case (Some d)
  assume "distinct (macs ys)" "set xs = set ys"
  with Some look_Some [OF Some] look_in [of ys d] show ?thesis by simp
qed

lemma look_rel:
  assumes "list_all2 R xs ys" "\<And>d d'. R d d' \<Longrightarrow> d_mac d' = d_mac d"
  shows "rel_option R (look xs m) (look ys m) \<and> macs ys = macs xs"
  using assms(1) by (induction) (auto simp: macs_def dest: assms(2))

text \<open>The table after a rebuild: sorted by address without repetition, and its entries.\<close>

definition table_sorted :: "dev list \<Rightarrow> bool" where
  "table_sorted devs = sorted_wrt (<) (macs devs)"

lemma sorted_strict: "sorted xs \<Longrightarrow> distinct xs \<Longrightarrow> sorted_wrt (<) (xs :: string list)"
  by (simp add: strict_sorted_iff)

lemma rebuilt_table:
  assumes "rebuilt E l s ds ms devs s'"
  shows "table_wf (sort_key d_mac devs)" "table_sorted (sort_key d_mac devs)"
    "rel_option (marked E (length (sy_trace s)) (lz_table l) (lz_nset l) (sy_trace s'))
       (look (foldl add_dev [] (ds @ List.map blocked_dev ms)) m) (look (sort_key d_mac devs) m)"
proof -
  let ?t = "foldl add_dev [] (ds @ List.map blocked_dev ms)"
  let ?R = "marked E (length (sy_trace s)) (lz_table l) (lz_nset l) (sy_trace s')"
  from assms have rd: "read_as (file_lines E l s) ds" and l2: "list_all2 ?R ?t devs"
    and "list_all canonical_mac ms"
    using listing_canonical by (auto simp: rebuilt_def)
  then have t: "table_wf ?t" by (intro added_wf)
  have rel: "rel_option ?R (look ?t m) (look devs m)" "macs devs = macs ?t"
    using look_rel [OF l2] marked_facts by blast+
  have "list_all dev_wf devs"
    using l2 t marked_facts unfolding table_wf_def list_all_iff
    by (metis in_set_conv_nth list_all2_conv_all_nth)
  with t rel(2) have "table_wf devs" by (simp add: table_wf_def flip: length_macs)
  then have m: "list_all dev_wf devs" "distinct (macs devs)" "length devs \<le> MAX_DEVICES"
    by (simp_all add: table_wf_def)
  have d: "distinct (macs (sort_key d_mac devs))"
    using m(2) by (simp add: macs_def distinct_map)
  with m show wf: "table_wf (sort_key d_mac devs)"
    by (simp add: table_wf_def list_all_iff)
  have "sorted (macs (sort_key d_mac devs))" by (simp add: macs_def)
  with d show "table_sorted (sort_key d_mac devs)" by (simp add: table_sorted_def sorted_strict)
  have "look (sort_key d_mac devs) m = look devs m"
    using d m(2) by (intro look_same_set) simp_all
  with rel(1) show "rel_option ?R (look ?t m) (look (sort_key d_mac devs) m)" by simp
qed

text \<open>The addresses the lease file names.\<close>

definition lease_macs :: "env \<Rightarrow> np_leases \<Rightarrow> sys \<Rightarrow> string list" where
  "lease_macs E l s = List.map_filter lease_mac (file_lines E l s)"

lemma d_mac_image: "d_mac ` set ds = set (macs ds)"
  by (simp add: macs_def)

lemma rebuilt_entries:
  assumes "rebuilt E l s ds ms devs s'"
    and "card (set (lease_macs E l s) \<union> set ms) \<le> MAX_DEVICES"
  shows "look (foldl add_dev [] (ds @ List.map blocked_dev ms)) m
      = merge_all None (filter (\<lambda>d. d_mac d = m) (ds @ List.map blocked_dev ms))"
    "set (macs (sort_key d_mac devs)) = set (lease_macs E l s) \<union> set ms"
proof -
  let ?all = "ds @ List.map blocked_dev ms"
  have rd: "read_as (file_lines E l s) ds" and cm: "list_all canonical_mac ms"
    using assms(1) listing_canonical by (auto simp: rebuilt_def)
  note f = read_as_facts [OF rd]
  have wf: "list_all dev_wf ?all" using f cm by (auto simp: list_all_iff)
  have keys: "d_mac ` set ?all = set (lease_macs E l s) \<union> set ms"
    using f by (simp add: lease_macs_def d_mac_image image_Un image_image)
  have fits: "card (dom (look []) \<union> d_mac ` set ?all) \<le> MAX_DEVICES"
    unfolding keys using assms(2) by (simp add: dom_look macs_def)
  show "look (foldl add_dev [] ?all) m = merge_all None (filter (\<lambda>d. d_mac d = m) ?all)"
    using store.entry_fold [OF _ wf fits] by simp
  have "dom (look (foldl add_dev [] ?all)) = set (lease_macs E l s) \<union> set ms"
    using store.dom_fold [OF _ wf fits] keys by (simp add: dom_look macs_def)
  moreover have "look (sort_key d_mac devs) k = None \<longleftrightarrow> look (foldl add_dev [] ?all) k = None" for k
    using rebuilt_table(3) [OF assms(1), of k] by (auto elim: option.rel_cases)
  ultimately have "k \<in> set (macs (sort_key d_mac devs)) \<longleftrightarrow> k \<in> set (lease_macs E l s) \<union> set ms" for k
    by (metis domIff look_None)
  then show "set (macs (sort_key d_mac devs)) = set (lease_macs E l s) \<union> set ms" by blast
qed


section \<open>The comparison as a list of events\<close>

datatype dev_event = Added dev | Changed dev | Removed string

fun ev_mac :: "dev_event \<Rightarrow> string" where
  "ev_mac (Added d) = d_mac d"
| "ev_mac (Changed d) = d_mac d"
| "ev_mac (Removed m) = m"

fun event_msg :: "dev_event \<Rightarrow> json" where
  "event_msg (Added d) = event_json ''added'' (Some d) None"
| "event_msg (Changed d) = event_json ''changed'' (Some d) None"
| "event_msg (Removed m) = event_json ''removed'' None (Some m)"

fun diff_events :: "dev list \<Rightarrow> dev list \<Rightarrow> dev_event list" where
  "diff_events (p # ps) (c # cs) =
     (if d_mac p = d_mac c then (if devs_differ p c then [Changed c] else []) @ diff_events ps cs
      else if d_mac p < d_mac c then Removed (d_mac p) # diff_events ps (c # cs)
      else Added c # diff_events (p # ps) cs)"
| "diff_events (p # ps) [] = Removed (d_mac p) # diff_events ps []"
| "diff_events [] (c # cs) = Added c # diff_events [] cs"
| "diff_events [] [] = []"

definition send_event :: "env \<Rightarrow> np_leases \<Rightarrow> dev_event \<Rightarrow> unit \<Rightarrow> unit np" where
  "send_event E l ev u = (case ev of
      Added d \<Rightarrow> emit_event E l ''added'' (Some d) None
    | Changed d \<Rightarrow> emit_event E l ''changed'' (Some d) None
    | Removed m \<Rightarrow> emit_event E l ''removed'' None (Some m))"

lemma diff_walk_events: "diff_walk E l ps cs = fold_np (send_event E l) (diff_events ps cs) ()"
  by (induction ps cs rule: diff_events.induct)
    (simp_all add: send_event_def strcmp_less_0 Let_def)

text \<open>What the comparison reports of one address, from the entries before and after.\<close>

definition expected_event :: "dev option \<Rightarrow> dev option \<Rightarrow> dev_event option" where
  "expected_event p c = (case (p, c) of
      (None, None) \<Rightarrow> None
    | (None, Some c) \<Rightarrow> Some (Added c)
    | (Some p, None) \<Rightarrow> Some (Removed (d_mac p))
    | (Some p, Some c) \<Rightarrow> if devs_differ p c then Some (Changed c) else None)"

definition ev_of :: "dev_event list \<Rightarrow> string \<Rightarrow> dev_event option" where
  "ev_of evs m = map_of (List.map (\<lambda>e. (ev_mac e, e)) evs) m"

lemma ev_of_simps [simp]:
  "ev_of [] m = None" "ev_of (e # es) m = (if ev_mac e = m then Some e else ev_of es m)"
  by (auto simp: ev_of_def)

lemma ev_of_None: "ev_of es m = None \<longleftrightarrow> m \<notin> set (List.map ev_mac es)"
  by (induction es) auto

lemma ev_of_in: "distinct (List.map ev_mac es) \<Longrightarrow> e \<in> set es \<longleftrightarrow> ev_of es (ev_mac e) = Some e"
  by (induction es) (auto simp: ev_of_None split: if_splits intro: rev_image_eqI)

lemma macs_Cons [simp]: "macs (d # ds) = d_mac d # macs ds" and macs_Nil [simp]: "macs [] = []"
  by (simp_all add: macs_def)

lemma diff_events_macs: "ev_mac ` set (diff_events ps cs) \<subseteq> set (macs ps) \<union> set (macs cs)"
  by (induction ps cs rule: diff_events.induct) (auto simp: image_subset_iff)

lemma sorted_look_None: "sorted_wrt (<) (m # macs ds) \<Longrightarrow> look ds m = None"
  by (auto simp: look_None)

lemma table_sorted_Cons [simp]:
  "table_sorted (d # ds) \<longleftrightarrow> (\<forall>m \<in> set (macs ds). d_mac d < m) \<and> table_sorted ds"
  by (simp add: table_sorted_def)

lemma look_below: "table_sorted ds \<Longrightarrow> (\<forall>m \<in> set (macs ds). k < m) \<Longrightarrow> m \<le> k \<Longrightarrow> look ds m = None"
  unfolding look_None by force

lemma diff_events_sorted:
  "table_sorted ps \<Longrightarrow> table_sorted cs \<Longrightarrow> sorted_wrt (<) (List.map ev_mac (diff_events ps cs))"
proof (induction ps cs rule: diff_events.induct)
  case (1 p ps c cs)
  have a: "\<forall>e \<in> set (diff_events ps cs). d_mac p < ev_mac e" if "d_mac p = d_mac c"
    using that 1(4,5) diff_events_macs [of ps cs] by fastforce
  have b: "\<forall>e \<in> set (diff_events ps (c # cs)). d_mac p < ev_mac e" if "d_mac p < d_mac c"
    using that 1(4,5) diff_events_macs [of ps "c # cs"] by fastforce
  have c: "\<forall>e \<in> set (diff_events (p # ps) cs). d_mac c < ev_mac e" if "d_mac c < d_mac p"
    using that 1(4,5) diff_events_macs [of "p # ps" cs] by fastforce
  consider "d_mac p = d_mac c" | "d_mac p < d_mac c" | "d_mac c < d_mac p" by fastforce
  then show ?case
  proof cases
    case 1
    with a "1.IH"(1) "1.prems" show ?thesis by simp
  next
    case 2
    then have "d_mac p \<noteq> d_mac c" by auto
    with 2 b "1.IH"(2) "1.prems" show ?thesis by simp
  next
    case 3
    then have "d_mac p \<noteq> d_mac c" "\<not> d_mac p < d_mac c" by auto
    with 3 c "1.IH"(3) "1.prems" show ?thesis by simp
  qed
next
  case (2 p ps)
  then show ?case using diff_events_macs [of ps "[]"] by fastforce
next
  case (3 c cs)
  then show ?case using diff_events_macs [of "[]" cs] by fastforce
qed simp

lemma diff_events_of:
  "table_sorted ps \<Longrightarrow> table_sorted cs \<Longrightarrow>
   ev_of (diff_events ps cs) m = expected_event (look ps m) (look cs m)"
proof (induction ps cs rule: diff_events.induct)
  case (1 p ps c cs)
  consider "d_mac p = d_mac c" | "d_mac p < d_mac c" | "d_mac c < d_mac p" by fastforce
  then show ?case
  proof cases
    case 1
    then have "look ps (d_mac c) = None" "look cs (d_mac c) = None"
      using "1.prems" by (auto intro: sorted_look_None simp: table_sorted_def)
    with 1 "1.IH"(1) "1.prems" show ?thesis
      by (cases "m = d_mac c") (simp_all add: expected_event_def)
  next
    case 2
    then have "look ps (d_mac p) = None" "look (c # cs) (d_mac p) = None" "d_mac p \<noteq> d_mac c"
      using "1.prems" by (auto intro: look_below simp: look_None)
    with 2 "1.IH"(2) "1.prems" show ?thesis
      by (cases "m = d_mac p") (simp_all add: expected_event_def)
  next
    case 3
    then have "look (p # ps) (d_mac c) = None" "look cs (d_mac c) = None" "d_mac p \<noteq> d_mac c" "\<not> d_mac p < d_mac c"
      using "1.prems" by (auto intro: look_below simp: look_None)
    with 3 "1.IH"(3) "1.prems" show ?thesis
      by (cases "m = d_mac c") (simp_all add: expected_event_def)
  qed
next
  case (2 p ps)
  then show ?case by (cases "m = d_mac p") (auto simp: expected_event_def)
next
  case (3 c cs)
  then show ?case by (cases "m = d_mac c") (auto simp: expected_event_def)
qed (simp add: expected_event_def)


text \<open>Replaying events on what a subscriber knows; the comparison does not look at \<open>last_seen\<close>.\<close>

fun apply_event :: "dev_event \<Rightarrow> (string \<Rightarrow> dev option) \<Rightarrow> string \<Rightarrow> dev option" where
  "apply_event (Added d) v = v(d_mac d := Some d)"
| "apply_event (Changed d) v = v(d_mac d := Some d)"
| "apply_event (Removed m) v = v(m := None)"

definition replay :: "dev_event list \<Rightarrow> (string \<Rightarrow> dev option) \<Rightarrow> string \<Rightarrow> dev option" where
  "replay evs v = foldl (\<lambda>v e. apply_event e v) v evs"

definition shown :: "dev \<Rightarrow> dev" where
  "shown d = d\<lparr>d_last_seen := 0\<rparr>"

lemma apply_event_other: "m \<noteq> ev_mac e \<Longrightarrow> apply_event e v m = v m"
  by (cases e) auto

lemma apply_event_same: "apply_event e v (ev_mac e) = apply_event e w (ev_mac e)"
  by (cases e) auto

lemma replay_at: "distinct (List.map ev_mac evs) \<Longrightarrow>
    replay evs v m = (case ev_of evs m of None \<Rightarrow> v m | Some e \<Rightarrow> apply_event e v m)"
proof (induction evs arbitrary: v)
  case (Cons e evs)
  then have "replay (e # evs) v m = (case ev_of evs m of None \<Rightarrow> apply_event e v m
      | Some e' \<Rightarrow> apply_event e' (apply_event e v) m)"
    by (simp add: replay_def)
  moreover have "ev_of evs m = None" if "ev_mac e = m"
    using Cons.prems that ev_of_None [of evs m] by simp
  moreover have "apply_event e' (apply_event e v) m = apply_event e' v m" if "ev_of evs m = Some e'" for e'
  proof -
    have "ev_mac e' = m" using that by (induction evs) (auto split: if_splits)
    then show ?thesis using apply_event_same by metis
  qed
  ultimately show ?case
    using apply_event_other [of m e v] by (auto split: option.splits)
qed (simp add: replay_def)

lemma not_differ: "\<not> devs_differ p c \<Longrightarrow> shown p = shown c"
  by (cases p, cases c) (auto simp: devs_differ_def shown_def split: if_splits)

lemma strictly_distinct: "sorted_wrt (<) (xs :: string list) \<Longrightarrow> distinct xs"
  by (simp add: strict_sorted_iff)

lemma replay_diff:
  assumes "table_sorted prev" "table_sorted cur"
  shows "map_option shown (replay (diff_events prev cur) (look prev) m) = map_option shown (look cur m)"
proof -
  have "distinct (List.map ev_mac (diff_events prev cur))"
    using diff_events_sorted [OF assms] by (rule strictly_distinct)
  from replay_at [OF this, of "look prev" m] show ?thesis
    by (auto simp: diff_events_of [OF assms] expected_event_def split: option.splits
        dest: look_Some not_differ)
qed


section \<open>What reaches the broker\<close>

text \<open>\<open>prints_with E r\<close>: cJSON prints every document, and the text is a function of the tree.\<close>

definition prints_with :: "env \<Rightarrow> (json \<Rightarrow> string) \<Rightarrow> bool" where
  "prints_with E render \<longleftrightarrow> (\<forall>h j. e_print E (h @ [Json_print j]) = Some (render j))"

abbreviation lz_id :: "np_leases \<Rightarrow> string" where "lz_id l \<equiv> mqtt_id (lz_mqtt l)"

definition event_out :: "(json \<Rightarrow> string) \<Rightarrow> string \<Rightarrow> dev_event \<Rightarrow> string \<times> string \<times> int \<times> bool" where
  "event_out render i ev = (event_topic i ''device'', render (event_msg ev), 1, False)"

lemma published_ask: "message_of c = [] \<Longrightarrow> published (t @ [c]) = published t"
  by (simp add: visible_simps)

lemma published_send_event:
  assumes "prints_with E render" "mqtt_live (lz_mqtt l)"
  shows "published (sy_trace (snd (run_state (send_event E l ev u) s))) =
    published (sy_trace s) @ [event_out render (lz_id l) ev]"
  using assms
  by (cases ev) (simp_all add: send_event_def emit_event_def prints_with_def event_out_def case_prod_beta
      device_event.published_pub visible_simps)

lemma published_send_events:
  assumes "prints_with E render" "mqtt_live (lz_mqtt l)"
  shows "published (sy_trace (snd (run_state (fold_np (send_event E l) evs u) s))) =
    published (sy_trace s) @ List.map (event_out render (lz_id l)) evs"
proof (induction evs arbitrary: s u)
  case (Cons ev evs)
  then show ?case
    using published_send_event [OF assms, of ev u s] by (simp add: case_prod_beta)
qed simp

text \<open>
  A subscriber of the events, reading the documents by their members: it knows the device documents by
  address. \<open>printed\<close> lists the documents that cJSON was asked to print.
\<close>

definition printed :: "history \<Rightarrow> json list" where
  "printed t = concat (List.map (\<lambda>c. case c of Json_print j \<Rightarrow> [j] | _ \<Rightarrow> []) t)"

fun json_field :: "json \<Rightarrow> string \<Rightarrow> json option" where
  "json_field (JObj kvs) k = map_of kvs k"
| "json_field _ k = None"

definition apply_doc :: "json \<Rightarrow> (string \<Rightarrow> json option) \<Rightarrow> string \<Rightarrow> json option" where
  "apply_doc j v =
     (if json_field j ''event'' = Some (JStr ''removed'')
      then (case json_field j ''mac'' of Some (JStr m) \<Rightarrow> v(m := None) | _ \<Rightarrow> v)
      else (case json_field j ''device'' of
          None \<Rightarrow> v
        | Some d \<Rightarrow> (case json_field d ''mac'' of Some (JStr m) \<Rightarrow> v(m := Some d) | _ \<Rightarrow> v)))"

definition subscriber :: "json list \<Rightarrow> (string \<Rightarrow> json option) \<Rightarrow> string \<Rightarrow> json option" where
  "subscriber docs v = foldl (\<lambda>v j. apply_doc j v) v docs"

definition known :: "dev list \<Rightarrow> string \<Rightarrow> json option" where
  "known ds m = map_option dev_to_json (look ds m)"

fun without_last_seen :: "json \<Rightarrow> json" where
  "without_last_seen (JObj kvs) = JObj (filter (\<lambda>kv. fst kv \<noteq> ''last_seen'') kvs)"
| "without_last_seen j = j"

lemma printed_append: "printed (t @ u) = printed t @ printed u"
  by (simp add: printed_def)

lemma printed_none: "list_all (\<lambda>c. \<forall>j. c \<noteq> Json_print j) u \<Longrightarrow> printed u = []"
  by (auto simp: printed_def list_all_iff split: call.splits)

lemma dev_to_json_mac: "json_field (dev_to_json d) ''mac'' = Some (JStr (d_mac d))"
  by (simp add: dev_to_json_def)

lemma apply_doc_event:
  "apply_doc (event_msg ev) (\<lambda>m. map_option dev_to_json (v m)) = (\<lambda>m. map_option dev_to_json (apply_event ev v m))"
  by (cases ev) (auto simp: apply_doc_def event_json_def dev_to_json_mac)

lemma subscriber_replay:
  "subscriber (List.map event_msg evs) (\<lambda>m. map_option dev_to_json (v m)) = (\<lambda>m. map_option dev_to_json (replay evs v m))"
  by (induction evs arbitrary: v) (simp_all add: subscriber_def replay_def apply_doc_event)

lemma shown_doc: "shown d = shown e \<Longrightarrow> without_last_seen (dev_to_json d) = without_last_seen (dev_to_json e)"
  by (cases d, cases e) (simp add: shown_def dev_to_json_def)

lemma printed_send_event:
  "printed (sy_trace (snd (run_state (send_event E l ev u) s))) = printed (sy_trace s) @ [event_msg ev]"
proof -
  have out: "printed (sy_trace (snd (run_state (np_mqtt_publish_event E m k p) s1))) = printed (sy_trace s1)" for m k p s1
  proof -
    have "emits (\<lambda>c. \<forall>j. c \<noteq> Json_print j) (np_mqtt_publish_event E m k p)"
      unfolding np_mqtt_publish_event_def Let_def
      by (auto intro!: emits_rules emits_publish_checked simp: is_log_print split: option.splits)
    from emits_trace [OF this, of s1] show ?thesis by (auto simp: printed_append printed_none)
  qed
  have "printed (sy_trace (snd (run_state (emit_event E l event d mac_only) s))) =
      printed (sy_trace s) @ [event_json event d mac_only]" for event d mac_only
    by (auto simp: emit_event_def case_prod_beta out printed_append split: option.splits) (simp_all add: printed_def)
  then show ?thesis by (cases ev) (simp_all add: send_event_def)
qed

lemma printed_send_events:
  "printed (sy_trace (snd (run_state (fold_np (send_event E l) evs u) s))) = printed (sy_trace s) @ List.map event_msg evs"
proof (induction evs arbitrary: s u)
  case (Cons ev evs)
  then show ?case using printed_send_event [of E l ev u s] by (simp add: case_prod_beta)
qed simp

text \<open>The calls the component makes.\<close>

definition leases_call :: "np_leases \<Rightarrow> call \<Rightarrow> bool" where
  "leases_call l c \<longleftrightarrow> nft_query (lz_table l) (lz_nset l) c \<or> c = Fopen_read (lz_path l) \<or>
     c = Stat_file (lz_path l) \<or> (\<exists>j. c = Json_print j) \<or>
     (\<exists>p. c = Mosq_publish (event_topic (lz_id l) ''device'') p 1 False) \<or>
     (\<exists>p. c = Mosq_publish (devices_topic (lz_id l)) p 1 True)"

definition same_place :: "np_leases \<Rightarrow> np_leases \<Rightarrow> bool" where
  "same_place l l' \<longleftrightarrow> lz_path l' = lz_path l \<and> lz_cfg l' = lz_cfg l \<and> lz_mqtt l' = lz_mqtt l"

lemma leases_call_same: "same_place l l' \<Longrightarrow> leases_call l' = leases_call l"
  by (simp add: leases_call_def same_place_def fun_eq_iff)

lemma leases_callI [simp]:
  "is_log c \<Longrightarrow> leases_call l c" "leases_call l (Fopen_read (lz_path l))"
  "leases_call l (Stat_file (lz_path l))" "leases_call l (Json_print j)"
  "nft_query (lz_table l) (lz_nset l) c \<Longrightarrow> leases_call l c"
  "leases_call l (Mosq_publish (event_topic (lz_id l) ''device'') p 1 False)"
  "leases_call l (Mosq_publish (devices_topic (lz_id l)) p 1 True)"
  by (auto simp: leases_call_def nft_query_def)

lemma emits_rebuild: "emits (leases_call l) (rebuild E l)"
  unfolding rebuild_def
  by (intro emits_rules emits_list emits_mark_blocked)
    (auto simp: nft_queryI(2) scan_macs_canonical)

lemma emits_diff_walk: "emits (leases_call l) (diff_walk E l ps cs)"
  unfolding diff_walk_events send_event_def emit_event_def Let_def
  by (intro emits_rules) (auto split: dev_event.splits intro!: emits_rules device_event.emits_pub)

lemma emits_diff_and_emit: "emits (leases_call l) (diff_and_emit E l)"
  unfolding diff_and_emit_def by (intro emits_rules emits_diff_walk)

lemma emits_publish_snapshot: "emits (leases_call l) (publish_snapshot E l)"
  unfolding publish_snapshot_def by (intro emits_rules devices.emits_pub) auto


section \<open>Republishing and polling\<close>

lemma run_diff_and_emit:
  "fst (run_state (diff_and_emit E l) s) = l\<lparr>lz_first_run := 0, lz_prev := lz_list l\<rparr>"
  by (cases l) (simp add: diff_and_emit_def case_prod_beta)

lemma published_diff_and_emit:
  assumes "prints_with E render" "mqtt_live (lz_mqtt l)"
  shows "published (sy_trace (snd (run_state (diff_and_emit E l) s))) = published (sy_trace s) @
    (if lz_first_run l \<noteq> 0 then []
     else List.map (event_out render (lz_id l)) (diff_events (lz_prev l) (lz_list l)))"
  using published_send_events [OF assms] by (simp add: diff_and_emit_def diff_walk_events case_prod_beta)

lemma published_publish_snapshot:
  assumes "prints_with E render" "mqtt_live (lz_mqtt l)"
  shows "published (sy_trace (snd (run_state (publish_snapshot E l) s))) = published (sy_trace s) @
    [(devices_topic (lz_id l), render (snapshot_json l (e_time E (sy_trace s @ [Time_now]))), 1, True)]"
proof -
  have "e_print E (sy_trace s @ [Time_now, Json_print j]) = Some (render j)" for j
    using assms(1) [unfolded prints_with_def, rule_format, of "sy_trace s @ [Time_now]"] by simp
  then show ?thesis
    using assms by (simp add: publish_snapshot_def case_prod_beta devices.published_pub visible_simps)
qed

lemma nft_action_silent: "nft_action table nset c \<Longrightarrow> message_of c = []"
  by (auto simp: nft_action_def is_log_message)

lemma nft_query_silent: "nft_query table nset c \<Longrightarrow> message_of c = []"
  by (rule nft_action_silent [OF nft_query_action])

lemma published_silent: "list_all (\<lambda>c. message_of c = []) t \<Longrightarrow> published t = []"
  by (induction t) (auto simp: visible_simps)

lemma emits_rebuild_silent: "emits (\<lambda>c. message_of c = []) (rebuild E l)"
  unfolding rebuild_def
  by (intro emits_rules emits_list emits_mark_blocked [of "lz_table l" "lz_nset l"])
    (auto simp: is_log_message nft_query_silent scan_macs_canonical)

lemma published_rebuild:
  "published (sy_trace (snd (run_state (rebuild E l) s))) = published (sy_trace s)"
  using emits_trace [OF emits_rebuild_silent, of E l s]
  by (auto simp: visible_simps published_silent)

text \<open>The result of a republication, from the rebuilt table.\<close>

definition settled :: "np_leases \<Rightarrow> dev list \<Rightarrow> np_leases" where
  "settled l devs = l\<lparr>lz_list := devs, lz_prev := devs, lz_first_run := 0\<rparr>"

lemma run_republish:
  assumes "run_state (rebuild E l) s = (l1, s1)"
  shows "fst (run_state (np_leases_republish E (Some l)) s) = Some (settled l (lz_list l1))"
proof -
  obtain devs where l1: "l1 = l\<lparr>lz_list := devs\<rparr>" using run_rebuild [OF assms] by blast
  have "fst (run_state (diff_and_emit E l1) s1) = settled l devs"
    by (cases l) (simp add: run_diff_and_emit l1 settled_def)
  with assms l1 show ?thesis by (simp add: np_leases_republish_def case_prod_beta)
qed

lemma published_republish:
  assumes "run_state (rebuild E l) s = (l1, s1)" "prints_with E render" "mqtt_live (lz_mqtt l)"
  shows "\<exists>now. published (sy_trace (snd (run_state (np_leases_republish E (Some l)) s))) = published (sy_trace s)
    @ (if lz_first_run l \<noteq> 0 then [] else List.map (event_out render (lz_id l)) (diff_events (lz_prev l) (lz_list l1)))
    @ [(devices_topic (lz_id l), render (snapshot_json (settled l (lz_list l1)) now), 1, True)]"
proof -
  obtain devs where l1: "l1 = l\<lparr>lz_list := devs\<rparr>" using run_rebuild [OF assms(1)] by blast
  then have f: "lz_mqtt l1 = lz_mqtt l" "lz_first_run l1 = lz_first_run l" "lz_prev l1 = lz_prev l"
    by simp_all
  obtain l2 s2 where d: "run_state (diff_and_emit E l1) s1 = (l2, s2)" by force
  have l2: "l2 = settled l (lz_list l1)"
    using d run_diff_and_emit [of E l1 s1] by (cases l) (simp add: l1 settled_def)
  have "published (sy_trace s1) = published (sy_trace s)"
    using published_rebuild [of E l s] assms(1) by simp
  moreover have "published (sy_trace s2) = published (sy_trace s1) @ (if lz_first_run l \<noteq> 0 then []
      else List.map (event_out render (lz_id l)) (diff_events (lz_prev l) (lz_list l1)))"
    using published_diff_and_emit [OF assms(2), of l1 s1] assms(3) d f by simp
  moreover have "published (sy_trace (snd (run_state (publish_snapshot E l2) s2))) = published (sy_trace s2)
      @ [(devices_topic (lz_id l), render (snapshot_json l2 (e_time E (sy_trace s2 @ [Time_now]))), 1, True)]"
    using published_publish_snapshot [OF assms(2), of l2 s2] assms(3) l2 by (simp add: settled_def)
  ultimately show ?thesis
    using assms(1) d l2 by (auto simp: np_leases_republish_def case_prod_beta)
qed

lemma rebuild_place: "same_place l (fst (run_state (rebuild E l) s))"
proof -
  obtain l' s' where r: "run_state (rebuild E l) s = (l', s')" by force
  then obtain devs where "l' = l\<lparr>lz_list := devs\<rparr>" using run_rebuild [OF r] by blast
  with r show ?thesis by (simp add: same_place_def)
qed

lemma emits_republish: "emits (leases_call l) (np_leases_republish E (Some l))"
proof -
  have "emits (leases_call l) (do { l2 \<leftarrow> diff_and_emit E l1; publish_snapshot E l2; ret (Some l2) })"
    if "same_place l l1" for l1
  proof (rule emits_bindS)
    show "emits (leases_call l) (diff_and_emit E l1)"
      using emits_diff_and_emit leases_call_same [OF that] by metis
    fix s
    have "same_place l (fst (run_state (diff_and_emit E l1) s))"
      using that by (simp add: run_diff_and_emit same_place_def)
    then have "emits (leases_call l) (publish_snapshot E (fst (run_state (diff_and_emit E l1) s)))"
      using emits_publish_snapshot leases_call_same by metis
    then show "emits (leases_call l) (do { publish_snapshot E (fst (run_state (diff_and_emit E l1) s));
        ret (Some (fst (run_state (diff_and_emit E l1) s))) })"
      by (intro emits_rules)
  qed
  then show ?thesis
    unfolding np_leases_republish_def option.case
    by - (rule emits_bindS, rule emits_rebuild, simp add: rebuild_place)
qed

text \<open>Polling: the file looks new when its stamp differs from the remembered one.\<close>

definition stamp_differs :: "np_leases \<Rightarrow> (int \<times> int) option \<Rightarrow> bool" where
  "stamp_differs l st = (case st of None \<Rightarrow> False
     | Some (mtime, sz) \<Rightarrow> mtime \<noteq> lz_last_mtime l \<or> sz \<noteq> lz_last_size l)"

definition remember :: "np_leases \<Rightarrow> (int \<times> int) option \<Rightarrow> np_leases" where
  "remember l st = (case st of None \<Rightarrow> l | Some (mtime, sz) \<Rightarrow> l\<lparr>lz_last_mtime := mtime, lz_last_size := sz\<rparr>)"

lemma poll_step:
  "np_leases_poll E (Some l) = do {
     st \<leftarrow> ask (e_stat E) (Stat_file (lz_path l));
     if stamp_differs l st \<or> lz_first_run l \<noteq> 0 then np_leases_republish E (Some (remember l st))
     else ret (Some l) }"
proof -
  have "(let (l', changed) = (case st of
            Some (mtime, sz) \<Rightarrow>
              if mtime \<noteq> lz_last_mtime l \<or> sz \<noteq> lz_last_size l
              then (l\<lparr>lz_last_mtime := mtime, lz_last_size := sz\<rparr>, True) else (l, False)
          | None \<Rightarrow> (l, False))
         in if changed \<or> lz_first_run l' \<noteq> 0 then np_leases_republish E (Some l') else ret (Some l'))
      = (if stamp_differs l st \<or> lz_first_run l \<noteq> 0 then np_leases_republish E (Some (remember l st))
         else ret (Some l))" for st
    by (cases l) (auto simp: stamp_differs_def remember_def split: option.splits)
  then show ?thesis by (simp add: np_leases_poll_def)
qed

lemma run_poll:
  "run_state (np_leases_poll E (Some l)) s =
     (let s1 = s\<lparr>sy_trace := sy_trace s @ [Stat_file (lz_path l)]\<rparr>; st = e_stat E (sy_trace s1)
      in if stamp_differs l st \<or> lz_first_run l \<noteq> 0
         then run_state (np_leases_republish E (Some (remember l st))) s1 else (Some l, s1))"
  by (simp add: poll_step Let_def)

lemma same_place_remember: "same_place l (remember l st)"
  by (simp add: same_place_def remember_def split: option.splits)

lemma emits_poll: "emits (leases_call l) (np_leases_poll E (Some l))"
  unfolding poll_step
  using emits_republish leases_call_same [OF same_place_remember]
  by (intro emits_rules) (simp, metis)


section \<open>A lease file as dnsmasq writes it\<close>

record lease_entry =
  le_expiry :: int
  le_mac :: string
  le_ip :: string
  le_host :: string
  le_client :: string

definition token :: "nat \<Rightarrow> string \<Rightarrow> bool" where
  "token w t \<longleftrightarrow> t \<noteq> [] \<and> \<not> list_ex isspace t \<and> length t \<le> w"

definition lease_body :: "lease_entry \<Rightarrow> string" where
  "lease_body e = show_int (le_expiry e) @ '' '' @ le_mac e @ '' '' @ le_ip e @ '' '' @ le_host e @ '' '' @ le_client e"

definition render_lease :: "lease_entry \<Rightarrow> string" where
  "render_lease e = lease_body e @ [NL]"

definition lease_ok :: "lease_entry \<Rightarrow> bool" where
  "lease_ok e \<longleftrightarrow> is_long (le_expiry e) \<and> canonical_mac (le_mac e) \<and> token 45 (le_ip e) \<and> token 63 (le_host e) \<and>
     NL \<notin> set (le_client e) \<and> nul_free (lease_body e) \<and> length (lease_body e) \<le> 510"

definition dev_of_lease :: "int \<Rightarrow> lease_entry \<Rightarrow> dev" where
  "dev_of_lease now e = \<lparr>d_mac = le_mac e, d_ip = le_ip e,
     d_hostname = (if le_host e = ''*'' then [] else le_host e), d_blocked = 0,
     d_lease_expires = le_expiry e, d_last_seen = now\<rparr>"

lemma canonical_token: "canonical_mac m \<Longrightarrow> token 63 m"
proof -
  assume c: "canonical_mac m"
  then have "list_all shell_inert m" "length m = 17" using mac.fixed mac.inert mac.length_17 by blast+
  moreover have "shell_inert c \<Longrightarrow> \<not> isspace c" for c
    using lower_hex_isxdigit [of c] isxdigit_not_space [of c] by (auto simp: shell_inert_def)
  ultimately show ?thesis by (auto simp: token_def list_all_iff list_ex_iff)
qed

lemma scan_token: "token w t \<Longrightarrow> scan_word w (CHR '' '' # t @ CHR '' '' # r) = Some (t, CHR '' '' # r)"
  by (rule scan_word_token) (simp_all add: token_def)

lemma scan_lease_render:
  assumes "lease_ok e"
  shows "scan_lease (render_lease e) = Some (le_expiry e, le_mac e, le_ip e, Some (le_host e))"
proof -
  let ?r3 = "CHR '' '' # le_client e @ [NL]"
  let ?r2 = "CHR '' '' # le_host e @ ?r3"
  let ?r1 = "CHR '' '' # le_ip e @ ?r2"
  let ?r0 = "CHR '' '' # le_mac e @ ?r1"
  have shape: "render_lease e = show_int (le_expiry e) @ ?r0"
    by (simp add: render_lease_def lease_body_def)
  have "scan_long (render_lease e) = Some (le_expiry e, ?r0)"
    unfolding shape using assms by (intro scan_long_show) (simp_all add: lease_ok_def)
  moreover have "scan_word 63 ?r0 = Some (le_mac e, ?r1)"
    using assms by (intro scan_token canonical_token) (simp add: lease_ok_def)
  moreover have "scan_word (IP_LEN - 1) ?r1 = Some (le_ip e, ?r2)"
    using assms by (intro scan_token) (simp add: lease_ok_def IP_LEN_def)
  moreover have "scan_word (HOSTNAME_LEN - 1) ?r2 = Some (le_host e, ?r3)"
    using assms by (intro scan_token) (simp add: lease_ok_def HOSTNAME_LEN_def)
  ultimately show ?thesis by (simp add: scan_lease_def)
qed

lemma lease_dev_render: "lease_ok e \<Longrightarrow> lease_dev now (render_lease e) = Some (dev_of_lease now e)"
  by (simp add: lease_dev_def scan_lease_render lease_ok_def mac.fixed dev_of_lease_def host_text_def)

lemma parse_render:
  "lease_ok e \<Longrightarrow> fst (run_state (parse_lease_line E (render_lease e)) s)
     = Some (dev_of_lease (long_cast (e_time E (sy_trace s @ [Time_now]))) e)"
  by (simp add: run_parse_lease_line lease_mac_def lease_dev_render)

lemma fgets_line: "NL \<notin> set l \<Longrightarrow> length l \<le> 510 \<Longrightarrow> fgets 512 (l @ NL # r) = Some (l @ [NL], r)"
proof -
  assume "NL \<notin> set l" and l: "length l \<le> 510"
  then have "takeWhile (\<lambda>c. c \<noteq> NL) (l @ NL # r) = l"
    by (induction l) auto
  with l show ?thesis by (simp add: fgets_def)
qed

lemma NL_show_nat: "NL \<notin> set (show_nat n)"
  using show_nat_digits [of n] isdigit_not_space [of NL] by (auto simp: list_all_iff)

lemma NL_token: "token w t \<Longrightarrow> NL \<notin> set t"
  by (auto simp: token_def list_ex_iff)

lemma NL_lease_body: "lease_ok e \<Longrightarrow> NL \<notin> set (lease_body e)"
  using NL_show_nat NL_token canonical_token
  by (auto simp: lease_body_def lease_ok_def show_int_def split: if_splits)

lemma lease_lines_render: "list_all lease_ok es \<Longrightarrow> lease_lines (concat (List.map render_lease es)) = List.map render_lease es"
proof (induction es)
  case Nil
  then show ?case by (simp add: lease_lines.simps [of "[]"] fgets_def)
next
  case (Cons e es)
  then have "fgets 512 (lease_body e @ NL # concat (List.map render_lease es))
      = Some (lease_body e @ [NL], concat (List.map render_lease es))"
    by (intro fgets_line NL_lease_body) (simp_all add: lease_ok_def)
  moreover have "c_str (lease_body e @ [NL]) = lease_body e @ [NL]"
    using Cons.prems by (intro c_str_nul_free) (simp add: lease_ok_def nul_free_def)
  ultimately have "lease_lines (concat (List.map render_lease (e # es)))
      = render_lease e # lease_lines (concat (List.map render_lease es))"
    by (subst lease_lines.simps) (simp add: render_lease_def [of e])
  with Cons show ?case by simp
qed


section \<open>The snapshot read back\<close>

definition dev_of_json :: "json \<Rightarrow> dev option" where
  "dev_of_json j = (case (json_field j ''mac'', json_field j ''ip'', json_field j ''hostname'',
       json_field j ''blocked'', json_field j ''lease_expires'', json_field j ''last_seen'') of
     (Some (JStr m), Some (JStr ip), Some (JStr h), Some (JBool b), Some (JNum le), Some (JNum ls)) \<Rightarrow>
       Some \<lparr>d_mac = m, d_ip = ip, d_hostname = h, d_blocked = (if b then 1 else 0),
             d_lease_expires = \<lfloor>le\<rfloor>, d_last_seen = \<lfloor>ls\<rfloor>\<rparr>
   | _ \<Rightarrow> None)"

definition exact_times :: "dev \<Rightarrow> bool" where
  "exact_times d \<longleftrightarrow> \<bar>d_lease_expires d\<bar> < 2 ^ 53 \<and> \<bar>d_last_seen d\<bar> < 2 ^ 53"

lemma dev_of_json_of: "exact_times d \<Longrightarrow> d_blocked d = 0 \<or> d_blocked d = 1 \<Longrightarrow> dev_of_json (dev_to_json d) = Some d"
  by (cases d) (auto simp: dev_to_json_def dev_of_json_def exact_times_def double_of_long_exact)


section \<open>The invariant of the watcher\<close>

definition leases_inv :: "np_leases \<Rightarrow> bool" where
  "leases_inv l \<longleftrightarrow> table_wf (lz_list l) \<and> table_sorted (lz_list l) \<and> table_wf (lz_prev l) \<and> table_sorted (lz_prev l)"

lemma leases_inv_settled: "table_wf devs \<Longrightarrow> table_sorted devs \<Longrightarrow> leases_inv (settled l devs)"
  by (simp add: leases_inv_def settled_def)

lemma same_place_settled [simp]:
  "same_place l (settled l devs)" "same_place l (settled (remember l st) devs)" "same_place l l"
  by (simp_all add: same_place_def settled_def remember_def split: option.splits)

lemma republish_settled:
  obtains devs where "fst (run_state (np_leases_republish E (Some l)) s) = Some (settled l devs)"
    "table_wf devs" "table_sorted devs"
proof -
  obtain l1 s1 where r: "run_state (rebuild E l) s = (l1, s1)" by force
  obtain ds ms devs where "rebuilt E l s ds ms devs s1" "l1 = l\<lparr>lz_list := sort_key d_mac devs\<rparr>"
    by (rule run_rebuild [OF r])
  with run_republish [OF r] rebuilt_table that show thesis by fastforce
qed

lemma poll_result:
  obtains devs st where "fst (run_state (np_leases_poll E (Some l)) s) = Some (settled (remember l st) devs)"
    "table_wf devs" "table_sorted devs"
  | "fst (run_state (np_leases_poll E (Some l)) s) = Some l"
proof -
  let ?s1 = "s\<lparr>sy_trace := sy_trace s @ [Stat_file (lz_path l)]\<rparr>"
  let ?st = "e_stat E (sy_trace ?s1)"
  show thesis
  proof (cases "stamp_differs l ?st \<or> lz_first_run l \<noteq> 0")
    case True
    obtain devs where "fst (run_state (np_leases_republish E (Some (remember l ?st))) ?s1)
        = Some (settled (remember l ?st) devs)" "table_wf devs" "table_sorted devs"
      by (rule republish_settled)
    with True that(1) show thesis by (simp add: run_poll Let_def)
  next
    case False
    with that(2) show thesis by (simp add: run_poll Let_def)
  qed
qed


lemma merge_all_blocked:
  "merge_all e ds = Some r \<Longrightarrow>
   d_blocked r \<noteq> 0 \<longleftrightarrow> (\<exists>e0. e = Some e0 \<and> d_blocked e0 \<noteq> 0) \<or> (\<exists>d \<in> set ds. d_blocked d \<noteq> 0)"
proof (induction ds arbitrary: e)
  case (Cons d ds)
  then have "d_blocked r \<noteq> 0 \<longleftrightarrow> d_blocked (merge_opt e d) \<noteq> 0 \<or> (\<exists>d \<in> set ds. d_blocked d \<noteq> 0)"
    by simp
  moreover have "d_blocked (merge_opt e d) \<noteq> 0 \<longleftrightarrow> (\<exists>e0. e = Some e0 \<and> d_blocked e0 \<noteq> 0) \<or> d_blocked d \<noteq> 0"
    by (cases e) (auto simp: merge_opt_def merge_dev_def)
  ultimately show ?case by auto
qed simp

text \<open>Two devices that differ at most in the blocked flag.\<close>

definition same_lease :: "dev \<Rightarrow> dev \<Rightarrow> bool" where
  "same_lease d e \<longleftrightarrow> d\<lparr>d_blocked := 0\<rparr> = e\<lparr>d_blocked := 0\<rparr>"

lemma rebuilt_device:
  assumes "rebuilt E l s ds ms devs s'" "card (set (lease_macs E l s) \<union> set ms) \<le> MAX_DEVICES"
    and d: "d \<in> set (sort_key d_mac devs)"
  shows "\<exists>e. merge_all None (filter (\<lambda>e. d_mac e = d_mac d) (ds @ List.map blocked_dev ms)) = Some e \<and> same_lease d e"
    "d_mac d \<in> set ms \<Longrightarrow> d_blocked d = 1"
    "d_mac d \<notin> set ms \<Longrightarrow> \<exists>rc. asked E (length (sy_trace s)) (get_cmd (lz_table l) (lz_nset l) (d_mac d)) (sy_trace s') rc \<and>
        d_blocked d = (if rc = 0 then 1 else 0)"
proof -
  let ?es = "filter (\<lambda>e. d_mac e = d_mac d) (ds @ List.map blocked_dev ms)"
  have wf: "table_wf (sort_key d_mac devs)" by (rule rebuilt_table(1) [OF assms(1)])
  then have "look (sort_key d_mac devs) (d_mac d) = Some d"
    using d by (intro look_in) (auto simp: table_wf_def)
  with rebuilt_table(3) [OF assms(1), of "d_mac d"] rebuilt_entries(1) [OF assms(1,2), of "d_mac d"]
  obtain e where e: "merge_all None ?es = Some e"
    and m: "marked E (length (sy_trace s)) (lz_table l) (lz_nset l) (sy_trace s') e d"
    by (auto elim: option.rel_cases)
  then show "\<exists>e. merge_all None ?es = Some e \<and> same_lease d e"
    by (auto simp: marked_def same_lease_def split: if_splits)
  have rd: "read_as (file_lines E l s) ds" using assms(1) by (simp add: rebuilt_def)
  have "d_blocked e \<noteq> 0 \<longleftrightarrow> (\<exists>x \<in> set ?es. d_blocked x \<noteq> 0)"
    using merge_all_blocked [OF e] by simp
  also have "\<dots> \<longleftrightarrow> d_mac d \<in> set ms"
    using read_as_facts [OF rd] by (auto simp: list_all_iff intro!: bexI [of _ "blocked_dev (d_mac d)"])
  finally have b: "d_blocked e \<noteq> 0 \<longleftrightarrow> d_mac d \<in> set ms" .
  have "dev_wf d" using wf d by (auto simp: table_wf_def list_all_iff)
  then have "d_blocked d = 0 \<or> d_blocked d = 1" by (simp add: dev_wf_def)
  with b m show "d_mac d \<in> set ms \<Longrightarrow> d_blocked d = 1" by (auto simp: marked_def)
  show "d_mac d \<notin> set ms \<Longrightarrow> \<exists>rc. asked E (length (sy_trace s)) (get_cmd (lz_table l) (lz_nset l) (d_mac d)) (sy_trace s') rc \<and>
        d_blocked d = (if rc = 0 then 1 else 0)"
    using b m marked_facts [OF m] by (auto simp: marked_def)
qed


section \<open>Properties\<close>

text \<open>
  C31: reading one line is safe and total. Whatever the line holds, a device that comes out has the
  canonical form of its address, texts that fit the arrays of \<open>struct dev\<close> with their terminator, an
  expiry in the range of \<open>long\<close>, the flag clear and the current time as a \<open>long\<close>; nothing but the clock
  is asked.
\<close>

theorem parse_lease_line_bounds:
  "visible (sy_trace (snd (run_state (parse_lease_line E line) s))) = visible (sy_trace s) \<and>
   pred_option (\<lambda>d. dev_wf d \<and> d_blocked d = 0 \<and> is_long (d_last_seen d) \<and>
       d_last_seen d = long_cast (e_time E (sy_trace s @ [Time_now])))
     (fst (run_state (parse_lease_line E line) s))"
  using lease_dev_wf by (auto simp: run_parse_lease_line visible_simps option.pred_set)

text \<open>
  C23: round trip of the lease file. A file written line by line from well-formed entries (lines of at most
  510 bytes) is read back as exactly these entries, in order; a host name \<open>*\<close> is read as unknown.
\<close>

theorem lease_file_roundtrip:
  assumes "list_all lease_ok es"
  shows "lease_lines (concat (List.map render_lease es)) = List.map render_lease es \<and>
    list_all (\<lambda>e. fst (run_state (parse_lease_line E (render_lease e)) s)
       = Some (dev_of_lease (long_cast (e_time E (sy_trace s @ [Time_now]))) e)) es"
  using assms lease_lines_render [OF assms] parse_render by (simp add: list_all_iff)

definition sample_lease :: lease_entry where
  "sample_lease = \<lparr>le_expiry = 1716494400, le_mac = ''aa:bb:cc:dd:ee:ff'', le_ip = ''192.168.1.42'',
     le_host = ''alices-iphone'', le_client = ''*''\<rparr>"

lemma sample_lease_ok: "lease_ok sample_lease" "lease_ok (sample_lease\<lparr>le_host := ''*''\<rparr>)"
proof -
  have m: "canonical_mac ''aa:bb:cc:dd:ee:ff''" by code_simp
  have b: "show_int 1716494400 = ''1716494400''"
    by (simp add: show_int_def show_nat.simps digit_char_def) code_simp
  show "lease_ok sample_lease" "lease_ok (sample_lease\<lparr>le_host := ''*''\<rparr>)"
    by (simp_all add: lease_ok_def lease_body_def sample_lease_def m b token_def nul_free_def is_long_def
        LONG_MAX_def LONG_MIN_def isspace_def)
qed

theorem lease_file_roundtrip_witness:
  "lease_lines (concat (List.map render_lease [sample_lease, sample_lease\<lparr>le_host := ''*''\<rparr>]))
     = [render_lease sample_lease, render_lease (sample_lease\<lparr>le_host := ''*''\<rparr>)]"
proof -
  have "list_all lease_ok [sample_lease, sample_lease\<lparr>le_host := ''*''\<rparr>]"
    by (simp add: sample_lease_ok)
  from lease_file_roundtrip [OF this] show ?thesis by simp
qed

text \<open>
  C25: \<open>add_or_merge\<close> refines an update of a map from addresses to devices with room for 256 of them.
  The entry of a known address takes the new non-empty fields and keeps a set blocked flag; a new address
  is inserted unless the table is full; no other entry changes.
\<close>

theorem add_or_merge_refines:
  "look (fst (run_state (add_or_merge E devs d) s)) m =
     (if m = d_mac d
      then (case look devs m of
          Some e \<Rightarrow> Some (merge_dev e d)
        | None \<Rightarrow> if length devs < MAX_DEVICES then Some d else None)
      else look devs m)"
  by (auto simp: run_add_or_merge look_add_dev merge_opt_def split: option.splits)


text \<open>
  C4: what the rebuilt table holds, while file and set name at most 256 addresses together: exactly the
  addresses of the valid lease lines and of the nft listing, once each and in order; the addresses of the
  listing are blocked, every other device is blocked exactly when the query for it, made during the rebuild,
  succeeded; and the remaining fields are those of the lines of the address, merged in the order of the file.
\<close>

theorem rebuild_contents:
  assumes "run_state (rebuild E l) s = (l', s')"
  shows "\<exists>ds ms h u. read_as (file_lines E l s) ds \<and>
    sy_trace s' = h @ [Popen_read (list_cmd (lz_table l) (lz_nset l))] @ u \<and> length (sy_trace s) \<le> length h \<and>
    ms = listing E (list_cmd (lz_table l) (lz_nset l)) h \<and>
    table_sorted (lz_list l') \<and>
    (card (set (lease_macs E l s) \<union> set ms) \<le> MAX_DEVICES \<longrightarrow>
      set (macs (lz_list l')) = set (lease_macs E l s) \<union> set ms \<and>
      (\<forall>d \<in> set (lz_list l').
         (if d_mac d \<in> set ms then d_blocked d = 1
          else \<exists>rc. asked E (length (sy_trace s)) (get_cmd (lz_table l) (lz_nset l) (d_mac d)) (sy_trace s') rc \<and>
                 d_blocked d = (if rc = 0 then 1 else 0)) \<and>
         (\<exists>e. merge_all None (filter (\<lambda>e. d_mac e = d_mac d) (ds @ List.map blocked_dev ms)) = Some e \<and>
            same_lease d e)))"
proof -
  obtain ds ms devs where r: "rebuilt E l s ds ms devs s'" "l' = l\<lparr>lz_list := sort_key d_mac devs\<rparr>"
    by (rule run_rebuild [OF assms])
  then obtain h u where "read_as (file_lines E l s) ds"
    "sy_trace s' = h @ [Popen_read (list_cmd (lz_table l) (lz_nset l))] @ u" "length (sy_trace s) \<le> length h"
    "ms = listing E (list_cmd (lz_table l) (lz_nset l)) h"
    by (auto simp: rebuilt_def)
  moreover have "table_sorted (lz_list l')" using rebuilt_table(2) [OF r(1)] r(2) by simp
  ultimately show ?thesis
    using rebuilt_entries(2) [OF r(1)] rebuilt_device [OF r(1)] r(2)
    by (intro exI [of _ ds] exI [of _ ms] exI [of _ h] exI [of _ u]) simp
qed

text \<open>A watcher and an environment for concrete runs: one lease, one blocked address.\<close>

definition sample_leases :: np_leases where
  "sample_leases = \<lparr>lz_path = Some ''/tmp/dhcp.leases'', lz_cfg = sample_config,
     lz_mqtt = Some \<lparr>nm_mosq = True, nm_cfg = sample_config, nm_status_topic = None, nm_cmd_filter = None\<rparr>,
     lz_list = [], lz_prev = [], lz_last_mtime = 0, lz_last_size = 0, lz_first_run = 1\<rparr>"

definition one_each :: env where
  "one_each = calm\<lparr>e_fopen := (\<lambda>_. Some (concat (List.map render_lease [sample_lease]))),
     e_popen := (\<lambda>_. Some (''11:22:33:44:55:66'', 0))\<rparr>"

lemma one_each_macs: "lease_macs one_each sample_leases s = [''aa:bb:cc:dd:ee:ff'']"
  using lease_lines_render [of "[sample_lease]"] sample_lease_ok(1)
  by (simp add: lease_macs_def file_lines_def one_each_def List.map_filter_def lease_mac_def lease_dev_render
      dev_of_lease_def sample_lease_def)

lemma one_each_listing: "listing one_each cmd h = [''11:22:33:44:55:66'']"
proof -
  have "scan_macs (nft_fill [] ''11:22:33:44:55:66'') = [''11:22:33:44:55:66'']" by code_simp
  then show ?thesis by (simp add: listing_def one_each_def)
qed

theorem rebuild_contents_witness:
  "set (macs (lz_list (fst (run_state (rebuild one_each sample_leases) sys_start))))
     = {''aa:bb:cc:dd:ee:ff'', ''11:22:33:44:55:66''}"
proof -
  have "card (set (lease_macs one_each sample_leases sys_start) \<union> set (listing one_each cmd h)) \<le> MAX_DEVICES"
    for cmd h
    by (simp add: one_each_macs one_each_listing MAX_DEVICES_def)
  with rebuild_contents [OF prod.collapse [symmetric], of one_each sample_leases sys_start]
  show ?thesis by (auto simp: one_each_macs one_each_listing)
qed

text \<open>
  C9: the invariant of the watcher. Both tables are well formed (at most 256 devices, no address twice,
  fields within their arrays) and strictly sorted by address when the watcher is created, and stay so
  under every poll and republication, whatever the outside answers; path, configuration and client stay.
\<close>

theorem leases_invariant:
  "pred_option leases_inv (fst (run_state (np_leases_create E path cfg mqtt) s)) \<and>
   pred_option (\<lambda>l'. leases_inv l' \<and> same_place l l') (fst (run_state (np_leases_republish E (Some l)) s)) \<and>
   (leases_inv l \<longrightarrow>
     pred_option (\<lambda>l'. leases_inv l' \<and> same_place l l') (fst (run_state (np_leases_poll E (Some l)) s)))"
proof (intro conjI impI)
  show "pred_option leases_inv (fst (run_state (np_leases_create E path cfg mqtt) s))"
    by (simp add: np_leases_create_def leases_inv_def table_wf_def table_sorted_def)
  show "pred_option (\<lambda>l'. leases_inv l' \<and> same_place l l') (fst (run_state (np_leases_republish E (Some l)) s))"
    by (rule republish_settled [of E l s]) (simp add: leases_inv_settled)
  assume "leases_inv l"
  show "pred_option (\<lambda>l'. leases_inv l' \<and> same_place l l') (fst (run_state (np_leases_poll E (Some l)) s))"
    by (rule poll_result [of E l s]) (simp_all add: leases_inv_settled \<open>leases_inv l\<close>)
qed

theorem leases_invariant_witness:
  "pred_option (\<lambda>l'. leases_inv l' \<and> same_place sample_leases l')
     (fst (run_state (np_leases_poll one_each (Some sample_leases)) sys_start))"
proof -
  have "leases_inv sample_leases"
    by (simp add: leases_inv_def sample_leases_def table_wf_def table_sorted_def)
  with leases_invariant [where E = one_each and l = sample_leases and s = sys_start] show ?thesis by blast
qed

text \<open>
  C6: the merge walk of \<open>diff_and_emit\<close> on sorted tables: it sends one event per address whose entry
  appeared, changed or went away, none for the others, in the order of the addresses, and the event says
  which of the three it was.
\<close>

theorem diff_walk_complete:
  assumes "table_sorted prev" "table_sorted cur"
  shows "\<exists>evs. diff_walk E l prev cur = fold_np (send_event E l) evs () \<and>
    sorted_wrt (<) (List.map ev_mac evs) \<and>
    (\<forall>m. ev_of evs m = expected_event (look prev m) (look cur m))"
  using diff_walk_events diff_events_sorted [OF assms] diff_events_of [OF assms] by blast

definition known_dev :: dev where
  "known_dev = dev_of_lease 1700000000 sample_lease"

theorem diff_walk_complete_witness:
  "\<exists>evs. diff_walk calm sample_leases [blocked_dev ''11:22:33:44:55:66'', known_dev]
       [known_dev\<lparr>d_blocked := 1\<rparr>] = fold_np (send_event calm sample_leases) evs () \<and>
     ev_of evs ''11:22:33:44:55:66'' = Some (Removed ''11:22:33:44:55:66'') \<and>
     ev_of evs (d_mac known_dev) = Some (Changed (known_dev\<lparr>d_blocked := 1\<rparr>))"
proof -
  have "''11:22:33:44:55:66'' < d_mac known_dev" by code_simp
  then have "table_sorted [blocked_dev ''11:22:33:44:55:66'', known_dev]"
    and "table_sorted [known_dev\<lparr>d_blocked := 1\<rparr>]" and "d_mac known_dev \<noteq> ''11:22:33:44:55:66''"
    by (auto simp: table_sorted_def)
  from diff_walk_complete [OF this(1,2), of calm sample_leases] this(3) show ?thesis
    by (auto simp: expected_event_def devs_differ_def known_dev_def dev_of_lease_def)
qed

text \<open>
  C14: the events are enough. The walk over the two tables hands documents to the printer and publishes each of
  them once, in order, not retained, on the event topic; and a subscriber that knows the device documents of
  the last table and applies these documents knows those of the new table, for every address, up to the time of
  the last sight.
\<close>

theorem events_replay:
  assumes "table_sorted prev" "table_sorted cur" "prints_with E render" "mqtt_live (lz_mqtt l)"
    and "run_state (diff_walk E l prev cur) s = ((), s')"
  shows "\<exists>docs. printed (sy_trace s') = printed (sy_trace s) @ docs \<and>
    published (sy_trace s') = published (sy_trace s)
      @ List.map (\<lambda>j. (event_topic (lz_id l) ''device'', render j, 1, False)) docs \<and>
    (\<forall>m. map_option without_last_seen (subscriber docs (known prev) m)
       = map_option without_last_seen (known cur m))"
proof -
  let ?evs = "diff_events prev cur"
  have s': "s' = snd (run_state (fold_np (send_event E l) ?evs ()) s)"
    using assms(5) by (simp add: diff_walk_events)
  have "map_option without_last_seen (subscriber (List.map event_msg ?evs) (known prev) m)
      = map_option without_last_seen (known cur m)" for m
  proof -
    have k: "known ds = (\<lambda>m. map_option dev_to_json (look ds m))" for ds by (rule ext) (simp add: known_def)
    show ?thesis
      using replay_diff [OF assms(1,2), of m] unfolding k subscriber_replay
      by (cases "replay ?evs (look prev) m"; cases "look cur m") (auto intro: shown_doc)
  qed
  moreover have "published (sy_trace s') = published (sy_trace s)
      @ List.map (\<lambda>j. (event_topic (lz_id l) ''device'', render j, 1, False)) (List.map event_msg ?evs)"
    unfolding s' published_send_events [OF assms(3,4)] by (simp add: event_out_def)
  ultimately show ?thesis
    using printed_send_events [of E l ?evs "()" s] unfolding s' by blast
qed

lemma calm_prints: "prints_with (calm\<lparr>e_fopen := f, e_popen := g\<rparr>) (\<lambda>_. ''{}'')"
  "prints_with calm (\<lambda>_. ''{}'')" "prints_with one_each (\<lambda>_. ''{}'')"
  by (simp_all add: prints_with_def one_each_def)

lemma sample_leases_live: "mqtt_live (lz_mqtt sample_leases)" "lz_first_run sample_leases = 1"
    "lz_id sample_leases = ''router-1''"
  by (simp_all add: sample_leases_def mqtt_live_def mqtt_id_def str_def)

theorem events_replay_witness:
  "\<exists>docs. printed (sy_trace (snd (run_state (diff_walk calm sample_leases [] [known_dev]) sys_start))) = docs \<and>
     map_option without_last_seen (subscriber docs (known []) (d_mac known_dev))
       = Some (without_last_seen (dev_to_json known_dev))"
proof -
  have t: "table_sorted []" "table_sorted [known_dev]" by (simp_all add: table_sorted_def)
  obtain s' where r: "run_state (diff_walk calm sample_leases [] [known_dev]) sys_start = ((), s')"
    by (metis surj_pair old.unit.exhaust)
  have e: "printed (sy_trace sys_start) = []" by (simp add: printed_def sys_start_def)
  have k: "known [known_dev] (d_mac known_dev) = Some (dev_to_json known_dev)" by (simp add: known_def)
  from events_replay [OF t calm_prints(2) sample_leases_live(1) r] obtain docs where
    "printed (sy_trace s') = docs"
    "map_option without_last_seen (subscriber docs (known []) (d_mac known_dev))
       = map_option without_last_seen (known [known_dev] (d_mac known_dev))"
    unfolding e by auto
  with k show ?thesis unfolding r by auto
qed

text \<open>
  C15: what a republication hands to the broker, for a live client and a printer that is a function of the
  document: first, unless it is the first run, one not retained message per event between the last table
  and the rebuilt one, in order, and then the retained snapshot of the rebuilt table. Afterwards the
  rebuilt table is the one later comparisons start from.
\<close>

theorem republish_messages:
  assumes "run_state (rebuild E l) s = (l1, s1)" "prints_with E render" "mqtt_live (lz_mqtt l)"
  shows "fst (run_state (np_leases_republish E (Some l)) s) = Some (settled l (lz_list l1)) \<and>
    (\<exists>now. published (sy_trace (snd (run_state (np_leases_republish E (Some l)) s))) = published (sy_trace s)
      @ (if lz_first_run l \<noteq> 0 then []
         else List.map (event_out render (lz_id l)) (diff_events (lz_prev l) (lz_list l1)))
      @ [(devices_topic (lz_id l), render (snapshot_json (settled l (lz_list l1)) now), 1, True)])"
  using run_republish [OF assms(1)] published_republish [OF assms] by blast

theorem republish_messages_witness:
  "published (sy_trace (snd (run_state (np_leases_republish one_each (Some sample_leases)) sys_start)))
     = [(''netparent/router-1/devices'', ''{}'', 1, True)]"
proof -
  from republish_messages [OF prod.collapse [symmetric] calm_prints(3) sample_leases_live(1), of sys_start]
  show ?thesis
    by (simp add: sample_leases_live devices_topic_def visible_simps sys_start_def)
qed

text \<open>
  C16: when a poll republishes. It hands something to the broker exactly when it is the first one or the
  lease file is there with another modification time or size than remembered; after any poll, polling
  again while the file keeps its stamp asks for the stamp only and changes nothing.
\<close>

theorem poll_when_stamp_differs:
  assumes "prints_with E render" "mqtt_live (lz_mqtt l)"
    and "run_state (np_leases_poll E (Some l)) s = (Some l', s')"
    and st: "st = e_stat E (sy_trace s @ [Stat_file (lz_path l)])"
  shows "(published (sy_trace s') \<noteq> published (sy_trace s) \<longleftrightarrow> stamp_differs l st \<or> lz_first_run l \<noteq> 0) \<and>
    (e_stat E (sy_trace s2 @ [Stat_file (lz_path l)]) = st \<longrightarrow>
      run_state (np_leases_poll E (Some l')) s2 =
        (Some l', s2\<lparr>sy_trace := sy_trace s2 @ [Stat_file (lz_path l)]\<rparr>))"
proof -
  let ?s1 = "s\<lparr>sy_trace := sy_trace s @ [Stat_file (lz_path l)]\<rparr>"
  have quiet: "run_state (np_leases_poll E (Some l')) s2 =
        (Some l', s2\<lparr>sy_trace := sy_trace s2 @ [Stat_file (lz_path l)]\<rparr>)"
    if "lz_path l' = lz_path l" "\<not> stamp_differs l' st" "lz_first_run l' = 0"
      "e_stat E (sy_trace s2 @ [Stat_file (lz_path l)]) = st" for s2
    using that by (simp add: run_poll Let_def)
  show ?thesis
  proof (cases "stamp_differs l st \<or> lz_first_run l \<noteq> 0")
    case True
    then have rep: "run_state (np_leases_republish E (Some (remember l st))) ?s1 = (Some l', s')"
      using assms(3) st by (simp add: run_poll Let_def)
    obtain l1 s1 where rb: "run_state (rebuild E (remember l st)) ?s1 = (l1, s1)" by force
    have live: "mqtt_live (lz_mqtt (remember l st))"
      using assms(2) same_place_remember [of l st] by (simp add: same_place_def)
    have "published (sy_trace s') \<noteq> published (sy_trace ?s1)"
      using published_republish [OF rb assms(1) live] rep by auto
    then have "published (sy_trace s') \<noteq> published (sy_trace s)" by (simp add: visible_simps)
    moreover have "l' = settled (remember l st) (lz_list l1)" using run_republish [OF rb] rep by simp
    then have "lz_path l' = lz_path l" "\<not> stamp_differs l' st" "lz_first_run l' = 0"
      by (auto simp: settled_def remember_def stamp_differs_def split: option.splits)
    ultimately show ?thesis using True quiet by blast
  next
    case False
    then have "run_state (np_leases_poll E (Some l)) s = (Some l, ?s1)" by (simp add: run_poll st Let_def)
    with assms(3) have "l' = l \<and> s' = ?s1" by auto
    then have "l' = l" "s' = ?s1" by blast+
    with False quiet [of s2] show ?thesis by (simp add: visible_simps)
  qed
qed

theorem poll_when_stamp_differs_witness:
  "published (sy_trace (snd (run_state (np_leases_poll one_each (Some sample_leases)) sys_start))) \<noteq> []"
proof -
  obtain l' s' where r: "run_state (np_leases_poll one_each (Some sample_leases)) sys_start = (Some l', s')"
    using poll_result [of one_each sample_leases sys_start] by (metis prod.collapse)
  from poll_when_stamp_differs [OF calm_prints(3) sample_leases_live(1) r refl, of sys_start]
  have "published (sy_trace s') \<noteq> []" by (simp add: sample_leases_live visible_simps sys_start_def)
  then show ?thesis by (simp add: r)
qed

text \<open>
  C32: the snapshot document carries the whole table: while the times are below 2 to the 53 (which a
  double holds exactly), every device is read back from it with all its fields.
\<close>

theorem snapshot_roundtrip:
  assumes "leases_inv l" "list_all exact_times (lz_list l)"
  shows "\<exists>ds. json_field (snapshot_json l now) ''devices'' = Some (JArr ds) \<and>
    List.map dev_of_json ds = List.map Some (lz_list l) \<and>
    json_field (snapshot_json l now) ''device_id'' = Some (JStr (str (device_id (lz_cfg l))))"
  using assms by (auto simp: snapshot_json_def leases_inv_def table_wf_def dev_wf_def list_all_iff
      intro!: dev_of_json_of)

theorem snapshot_roundtrip_witness:
  "\<exists>ds. json_field (snapshot_json (sample_leases\<lparr>lz_list := [known_dev]\<rparr>) 1700000000) ''devices'' = Some (JArr ds)
     \<and> List.map dev_of_json ds = [Some known_dev]"
proof -
  let ?l = "sample_leases\<lparr>lz_list := [known_dev]\<rparr>"
  have "lease_dev 1700000000 (render_lease sample_lease) = Some known_dev"
    using lease_dev_render [OF sample_lease_ok(1)] by (simp add: known_dev_def)
  then have "dev_wf known_dev" using lease_dev_wf by blast
  then have "leases_inv ?l"
    by (simp add: leases_inv_def sample_leases_def table_wf_def table_sorted_def MAX_DEVICES_def)
  moreover have "list_all exact_times (lz_list ?l)"
    by (simp add: exact_times_def known_dev_def dev_of_lease_def sample_lease_def)
  ultimately show ?thesis using snapshot_roundtrip [of ?l 1700000000] by auto
qed

end
