(* ===== verification/Handler.thy ===== *)
theory Handler
  imports Leases
begin

text \<open>
  The component \<open>src/src/handler.c\<close>, \<open>src/src/handler.h\<close>: the topic filter, the commands and
  their replies. The watcher of \<open>leases.c\<close> is reached from the handler and from the tick of the network
  loop through two pointers to one object; here the handler owns its state, and the tick works on it too.
\<close>

section \<open>The handler\<close>

record np_handler =
  h_cfg :: np_config
  h_mqtt :: "np_mqtt option"
  h_leases :: "np_leases option"

definition parse_action :: "string \<Rightarrow> string \<Rightarrow> string option" where
  "parse_action topic dev_id =
     (let prefix = snprintf 128 ''netparent/%s/cmd/'' [dev_id];
          n = length (format ''netparent/%s/cmd/'' [dev_id])
      in if n \<ge> 128 then None
         else if strncmp topic prefix n \<noteq> 0 then None
         else let action = drop n topic in if action = [] then None else Some action)"

definition reply_json :: "bool \<Rightarrow> string option \<Rightarrow> string option \<Rightarrow> string option \<Rightarrow> json" where
  "reply_json ok action detail_key detail_val = JObj (
     [(''ok'', JBool ok)]
     @ (case action of Some a \<Rightarrow> [(''action'', JStr a)] | None \<Rightarrow> [])
     @ (case (detail_key, detail_val) of (Some k, Some v) \<Rightarrow> [(k, JStr v)] | _ \<Rightarrow> []))"

definition reply ::
  "env \<Rightarrow> np_handler \<Rightarrow> string option \<Rightarrow> bool \<Rightarrow> string option \<Rightarrow> string option \<Rightarrow> string option \<Rightarrow> unit np" where
  "reply E h req_id ok action detail_key detail_val =
     (if req_id = None \<or> req_id = Some [] then ret ()
      else do {
        o_ok \<leftarrow> ask (e_malloc E) Malloc;
        if \<not> o_ok then ret ()
        else do {
          s \<leftarrow> ask (e_print E) (Json_print (reply_json ok action detail_key detail_val));
          case s of
            None \<Rightarrow> ret ()
          | Some s \<Rightarrow> do { _ \<leftarrow> np_mqtt_publish_response E (h_mqtt h) req_id s; ret () } } })"

definition list_cb :: "string \<Rightarrow> json list \<Rightarrow> json list np" where
  "list_cb mac arr = ret (arr @ [JStr mac])"

text \<open>\<open>np_leases_republish(h->leases)\<close> on the state behind the pointer.\<close>

definition republish :: "env \<Rightarrow> np_handler \<Rightarrow> np_handler np" where
  "republish E h = do { l \<leftarrow> np_leases_republish E (h_leases h); ret (h\<lparr>h_leases := l\<rparr>) }"

abbreviation h_table :: "np_handler \<Rightarrow> string" where "h_table h \<equiv> str (nft_table (h_cfg h))"
abbreviation h_nset :: "np_handler \<Rightarrow> string" where "h_nset h \<equiv> str (nft_set (h_cfg h))"

text \<open>The dispatch on the action.\<close>

definition handle_command ::
  "env \<Rightarrow> np_handler \<Rightarrow> string \<Rightarrow> string option \<Rightarrow> string option \<Rightarrow> np_handler np" where
  "handle_command E h action mac req_id =
     (if strcmp action ''block'' = 0 then
        (case mac of
           None \<Rightarrow> do { reply E h req_id False (Some action) (Some ''error'') (Some ''mac required''); ret h }
         | Some mac \<Rightarrow> do {
             rc \<leftarrow> np_nft_block E (h_table h) (h_nset h) mac;
             if rc \<noteq> 0
             then do { reply E h req_id False (Some action) (Some ''error'') (Some ''nft block failed''); ret h }
             else do { reply E h req_id True (Some action) (Some ''mac'') (Some mac); republish E h } })
      else if strcmp action ''unblock'' = 0 then
        (case mac of
           None \<Rightarrow> do { reply E h req_id False (Some action) (Some ''error'') (Some ''mac required''); ret h }
         | Some mac \<Rightarrow> do {
             rc \<leftarrow> np_nft_unblock E (h_table h) (h_nset h) mac;
             if rc \<noteq> 0
             then do { reply E h req_id False (Some action) (Some ''error'') (Some ''nft unblock failed''); ret h }
             else do { reply E h req_id True (Some action) (Some ''mac'') (Some mac); republish E h } })
      else if strcmp action ''status'' = 0 then
        (case mac of
           None \<Rightarrow> do { reply E h req_id False (Some action) (Some ''error'') (Some ''mac required''); ret h }
         | Some mac \<Rightarrow> do {
             s \<leftarrow> np_nft_is_blocked E (h_table h) (h_nset h) mac;
             (if s < 0
              then reply E h req_id False (Some action) (Some ''error'') (Some ''lookup failed'')
              else reply E h req_id True (Some action) (Some ''blocked'')
                     (Some (if s \<noteq> 0 then ''true'' else ''false'')));
             ret h })
      else if strcmp action ''list'' = 0 then do {
        r \<leftarrow> np_nft_list E (h_table h) (h_nset h) list_cb [];
        let o_doc = JObj [(''ok'', JBool True), (''action'', JStr action), (''blocked'', JArr (snd r))];
        (case req_id of
           None \<Rightarrow> ret h
         | Some _ \<Rightarrow> do {
             s \<leftarrow> ask (e_print E) (Json_print o_doc);
             case s of
               None \<Rightarrow> ret h
             | Some s \<Rightarrow> do { _ \<leftarrow> np_mqtt_publish_response E (h_mqtt h) req_id s; ret h } }) }
      else if strcmp action ''ping'' = 0 then do {
        reply E h req_id True (Some action) (Some ''pong'') (Some ''1''); ret h }
      else do {
        LOG_WARN E ''unknown action: %s'' [action];
        reply E h req_id False (Some action) (Some ''error'') (Some ''unknown action'');
        ret h })"

text \<open>The payload is copied and terminated, so cJSON sees it up to its first NUL.\<close>

definition np_handle_message :: "env \<Rightarrow> string \<Rightarrow> string \<Rightarrow> np_handler \<Rightarrow> np_handler np" where
  "np_handle_message E topic payload h = (case parse_action topic (str (device_id (h_cfg h))) of
      None \<Rightarrow> do { LOG_WARN E ''ignoring message on unrelated topic: %s'' [topic]; ret h }
    | Some action \<Rightarrow> do {
        body \<leftarrow> ask (e_malloc E) Malloc;
        if \<not> body then do { LOG_ERR E ''oom processing message'' []; ret h }
        else do {
          json \<leftarrow> (if length payload > 0
                  then ask (e_parse E) (Json_parse (c_str payload))
                  else do { ok \<leftarrow> ask (e_malloc E) Malloc; ret (if ok then Some (JObj []) else None) });
          case json of
            None \<Rightarrow> do { LOG_WARN E ''invalid JSON on %s'' [topic]; ret h }
          | Some json \<Rightarrow> do {
              let mac = json_string (e_get E json ''mac'');
              let req_id = json_string (e_get E json ''req_id'');
              LOG_INFO E ''cmd=%s mac=%s req_id=%s'' [action,
                (case mac of Some m \<Rightarrow> m | None \<Rightarrow> ''(none)''),
                (case req_id of Some r \<Rightarrow> r | None \<Rightarrow> ''(none)'')];
              handle_command E h action mac req_id } } })"


section \<open>The commands without their plumbing\<close>

text \<open>
  An abstract reading of the dispatch: a command computes a document and says whether the table has to
  be republished; the document is then sent, and the table republished.
\<close>

definition err_doc :: "string \<Rightarrow> string \<Rightarrow> json" where
  "err_doc action msg = reply_json False (Some action) (Some ''error'') (Some msg)"

definition ok_doc :: "string \<Rightarrow> string \<Rightarrow> string \<Rightarrow> json" where
  "ok_doc action k v = reply_json True (Some action) (Some k) (Some v)"

definition list_doc :: "string list \<Rightarrow> json" where
  "list_doc ms = JObj [(''ok'', JBool True), (''action'', JStr ''list''), (''blocked'', JArr (List.map JStr ms))]"

definition command_doc :: "env \<Rightarrow> np_handler \<Rightarrow> string \<Rightarrow> string option \<Rightarrow> (json \<times> bool) np" where
  "command_doc E h action mac =
     (if action = ''block'' then
        (case mac of
           None \<Rightarrow> ret (err_doc action ''mac required'', False)
         | Some m \<Rightarrow> do {
             rc \<leftarrow> np_nft_block E (h_table h) (h_nset h) m;
             ret (if rc \<noteq> 0 then (err_doc action ''nft block failed'', False) else (ok_doc action ''mac'' m, True)) })
      else if action = ''unblock'' then
        (case mac of
           None \<Rightarrow> ret (err_doc action ''mac required'', False)
         | Some m \<Rightarrow> do {
             rc \<leftarrow> np_nft_unblock E (h_table h) (h_nset h) m;
             ret (if rc \<noteq> 0 then (err_doc action ''nft unblock failed'', False) else (ok_doc action ''mac'' m, True)) })
      else if action = ''status'' then
        (case mac of
           None \<Rightarrow> ret (err_doc action ''mac required'', False)
         | Some m \<Rightarrow> do {
             b \<leftarrow> np_nft_is_blocked E (h_table h) (h_nset h) m;
             ret (if b < 0 then err_doc action ''lookup failed''
                  else ok_doc action ''blocked'' (if b \<noteq> 0 then ''true'' else ''false''), False) })
      else if action = ''list'' then do {
        r \<leftarrow> np_nft_list E (h_table h) (h_nset h) (\<lambda>m ms. ret (ms @ [m])) [];
        ret (list_doc (snd r), False) }
      else if action = ''ping'' then ret (ok_doc action ''pong'' ''1'', False)
      else do {
        LOG_WARN E ''unknown action: %s'' [action];
        ret (err_doc action ''unknown action'', False) })"

definition send_doc :: "env \<Rightarrow> np_handler \<Rightarrow> string option \<Rightarrow> json \<Rightarrow> unit np" where
  "send_doc E h req_id doc = do {
     s \<leftarrow> ask (e_print E) (Json_print doc);
     case s of
       None \<Rightarrow> ret ()
     | Some s \<Rightarrow> do { _ \<leftarrow> np_mqtt_publish_response E (h_mqtt h) req_id s; ret () } }"

text \<open>
  Who gets an answer: with a request id that is not empty, everybody; the empty one is answered by
  \<open>list\<close> only, which does not test for it.
\<close>

definition respond :: "env \<Rightarrow> np_handler \<Rightarrow> string \<Rightarrow> string option \<Rightarrow> json \<Rightarrow> unit np" where
  "respond E h action req_id doc =
     (if action = ''list'' then if req_id = None then ret () else send_doc E h req_id doc
      else if req_id = None \<or> req_id = Some [] then ret ()
      else do { ok \<leftarrow> ask (e_malloc E) Malloc; if ok then send_doc E h req_id doc else ret () })"

lemma reply_respond:
  "action \<noteq> ''list'' \<Longrightarrow> reply E h req_id ok a k v = respond E h action req_id (reply_json ok a k v)"
  by (auto simp: reply_def respond_def send_doc_def intro!: arg_cong [where f = "State_Monad.bind _"])

lemma list_cb_fold:
  "fold_np list_cb ms (List.map JStr acc) =
   do { ms' \<leftarrow> fold_np (\<lambda>m ms. ret (ms @ [m])) ms acc; ret (List.map JStr ms') }"
proof (induction ms arbitrary: acc)
  case (Cons m ms)
  then show ?case using Cons.IH [of "acc @ [m]"] by (simp add: list_cb_def)
qed simp

lemma list_docs:
  "np_nft_list E table nset list_cb [] =
   do { r \<leftarrow> np_nft_list E table nset (\<lambda>m ms. ret (ms @ [m])) []; ret (fst r, List.map JStr (snd r)) }"
proof -
  have "(case fp of None \<Rightarrow> ret (-1, []) | Some (out, _) \<Rightarrow> do {
           user' \<leftarrow> fold_np list_cb (scan_macs (nft_fill [] out)) []; ret (0, user') }) =
        do { r \<leftarrow> (case fp of None \<Rightarrow> ret (-1, []) | Some (out, _) \<Rightarrow> do {
               user' \<leftarrow> fold_np (\<lambda>m ms. ret (ms @ [m])) (scan_macs (nft_fill [] out)) []; ret (0, user') });
             ret (fst r, List.map JStr (snd r)) }" for fp :: "(string \<times> int) option"
    using list_cb_fold [of _ "[]"] by (auto split: option.splits)
  then show ?thesis
    by (simp add: np_nft_list_def Let_def) (rule arg_cong [where f = "State_Monad.bind _"], rule ext, assumption)
qed

lemma handle_command_decomposed:
  "handle_command E h action mac req_id = do {
     r \<leftarrow> command_doc E h action mac;
     respond E h action req_id (fst r);
     if snd r then republish E h else ret h }"
proof -
  consider "action = ''block''" | "action = ''unblock''" | "action = ''status''" | "action = ''list''"
    | "action = ''ping''" | "action \<notin> {''block'', ''unblock'', ''status'', ''list'', ''ping''}" by blast
  then show ?thesis
  proof cases
    case 1
    then show ?thesis
      by (cases mac) (auto simp: handle_command_def command_doc_def reply_respond [of action] err_doc_def ok_doc_def
          intro!: arg_cong [where f = "State_Monad.bind _"])
  next
    case 2
    then show ?thesis
      by (cases mac) (auto simp: handle_command_def command_doc_def reply_respond [of action] err_doc_def ok_doc_def
          intro!: arg_cong [where f = "State_Monad.bind _"])
  next
    case 3
    then show ?thesis
      by (cases mac) (auto simp: handle_command_def command_doc_def reply_respond [of action] err_doc_def ok_doc_def
          intro!: arg_cong [where f = "State_Monad.bind _"])
  next
    case 4
    then show ?thesis
      by (cases req_id) (auto simp: handle_command_def command_doc_def respond_def send_doc_def list_docs list_doc_def
          intro!: arg_cong [where f = "State_Monad.bind _"] ext split: option.splits)
  next
    case 5
    then show ?thesis
      by (auto simp: handle_command_def command_doc_def reply_respond [of action] ok_doc_def)
  next
    case 6
    then show ?thesis
      by (auto simp: handle_command_def command_doc_def reply_respond [of action] err_doc_def
          intro!: arg_cong [where f = "State_Monad.bind _"])
  qed
qed


section \<open>What the handler does to the world\<close>

lemma emits_command_doc: "emits (nft_action (h_table h) (h_nset h)) (command_doc E h action mac)"
proof -
  have "emits (nft_action (h_table h) (h_nset h)) (np_nft_list E (h_table h) (h_nset h) (\<lambda>m ms. ret (ms @ [m])) [])"
    by (intro emits_list emits_return nft_actionI) (simp add: scan_macs_canonical)
  then show ?thesis
    unfolding command_doc_def
    by (intro emits_rules emits_block emits_unblock emits_is_blocked) (simp_all add: nft_actionI(1))
qed

definition respond_call :: "np_handler \<Rightarrow> string option \<Rightarrow> call \<Rightarrow> bool" where
  "respond_call h req_id c \<longleftrightarrow> is_log c \<or> c = Malloc \<or> (\<exists>j. c = Json_print j) \<or>
     (\<exists>r p. req_id = Some r \<and> c = Mosq_publish (response_topic (mqtt_id (h_mqtt h)) r) p 1 False)"

lemma emits_send_doc: "emits (respond_call h req_id) (send_doc E h req_id doc)"
  unfolding send_doc_def
  by (intro emits_rules emits_publish_response) (auto simp: respond_call_def)

lemma emits_respond: "emits (respond_call h req_id) (respond E h action req_id doc)"
  unfolding respond_def
  by (intro emits_rules emits_send_doc) (auto simp: respond_call_def)

text \<open>
  The watcher works for the same configuration and client as the handler, as \<open>main\<close> sets them up.
\<close>

definition h_ok :: "np_handler \<Rightarrow> bool" where
  "h_ok h \<longleftrightarrow> pred_option (\<lambda>l. lz_cfg l = h_cfg h \<and> lz_mqtt l = h_mqtt h \<and> leases_inv l) (h_leases h)"

definition handler_call :: "np_handler \<Rightarrow> call \<Rightarrow> bool" where
  "handler_call h c \<longleftrightarrow> nft_action (h_table h) (h_nset h) c \<or> c = Malloc \<or> (\<exists>t. c = Json_parse t) \<or>
     (\<exists>req_id. respond_call h req_id c) \<or> (\<exists>l. h_leases h = Some l \<and> leases_call l c)"

lemma emits_republish_handler: "emits (\<lambda>c. \<exists>l. h_leases h = Some l \<and> leases_call l c) (republish E h)"
proof (cases "h_leases h")
  case None
  then show ?thesis by (simp add: republish_def np_leases_republish_def emits_return)
next
  case (Some l)
  have "emits (\<lambda>c. \<exists>l. h_leases h = Some l \<and> leases_call l c) (np_leases_republish E (Some l))"
    by (rule emits_mono [OF emits_republish [of l E]]) (simp add: Some)
  then show ?thesis
    unfolding republish_def Some by (intro emits_bind emits_return)
qed

lemma emits_handle_command: "emits (handler_call h) (handle_command E h action mac req_id)"
  unfolding handle_command_decomposed
  by (intro emits_rules emits_mono [OF emits_command_doc [of h]] emits_mono [OF emits_respond [of h req_id]]
      emits_mono [OF emits_republish_handler])
    (auto simp: handler_call_def)

lemma handler_call_log: "is_log c \<Longrightarrow> handler_call h c"
  by (simp add: handler_call_def nft_actionI(1))

lemma emits_handle_message: "emits (handler_call h) (np_handle_message E topic payload h)"
  unfolding np_handle_message_def Let_def
  by (intro emits_rules emits_handle_command) (simp_all add: handler_call_log, simp_all add: handler_call_def)

text \<open>What reaches the broker comes from the calls an operation may make.\<close>

lemma published_from:
  "list_all P t \<Longrightarrow> x \<in> set (published t) \<Longrightarrow> \<exists>c. P c \<and> x \<in> set (message_of c)"
  by (induction t) (auto simp: visible_simps)

lemma emits_published:
  assumes "emits P m"
  obtains ms where "published (sy_trace (snd (run_state m s))) = published (sy_trace s) @ ms"
    "\<forall>x \<in> set ms. \<exists>c. P c \<and> x \<in> set (message_of c)"
proof -
  from emits_trace [OF assms, of s] obtain t
    where t: "sy_trace (snd (run_state m s)) = sy_trace s @ t" "list_all P t" by blast
  then have "\<forall>x \<in> set (published t). \<exists>c. P c \<and> x \<in> set (message_of c)" using published_from by blast
  with t(1) that [of "published t"] show thesis by (simp add: visible_simps)
qed

lemma published_command_doc:
  "published (sy_trace (snd (run_state (command_doc E h action mac) s))) = published (sy_trace s)"
proof -
  obtain ms where "published (sy_trace (snd (run_state (command_doc E h action mac) s))) = published (sy_trace s) @ ms"
    "\<forall>x \<in> set ms. \<exists>c. nft_action (h_table h) (h_nset h) c \<and> x \<in> set (message_of c)"
    by (rule emits_published [OF emits_command_doc])
  then show ?thesis using nft_action_silent by (cases ms) auto
qed

text \<open>The reply, or nothing.\<close>

definition answers :: "np_handler \<Rightarrow> string option \<Rightarrow> (string \<times> string \<times> int \<times> bool) list \<Rightarrow> bool" where
  "answers h req_id ms \<longleftrightarrow> ms = [] \<or>
     (\<exists>r p. req_id = Some r \<and> ms = [(response_topic (mqtt_id (h_mqtt h)) r, p, 1, False)])"

lemma published_response:
  "published (sy_trace (snd (run_state (np_mqtt_publish_response E m sfx p) s))) = published (sy_trace s) @
     (if mqtt_live m \<and> sfx \<noteq> None \<and> e_malloc E (sy_trace s @ [Malloc])
      then [(response_topic (mqtt_id m) (the sfx), p, 1, False)] else [])"
  using arg_cong [where f = published, OF visible_publish_response [of E m sfx p s]]
  by (simp add: published_of_visible visible_simps)

lemma published_send_doc:
  "\<exists>ms. published (sy_trace (snd (run_state (send_doc E h req_id doc) s))) = published (sy_trace s) @ ms
     \<and> answers h req_id ms"
proof (cases "e_print E (sy_trace s @ [Json_print doc])")
  case None
  then show ?thesis by (simp add: send_doc_def answers_def visible_simps)
next
  case (Some p)
  let ?s1 = "s\<lparr>sy_trace := sy_trace s @ [Json_print doc]\<rparr>"
  show ?thesis
    using Some published_response [of E "h_mqtt h" req_id p ?s1]
    by (cases req_id) (auto simp: send_doc_def answers_def case_prod_beta visible_simps)
qed

lemma published_respond:
  "\<exists>ms. published (sy_trace (snd (run_state (respond E h action req_id doc) s))) = published (sy_trace s) @ ms
     \<and> answers h req_id ms \<and> (req_id = Some [] \<longrightarrow> action \<noteq> ''list'' \<longrightarrow> ms = [])"
proof -
  show ?thesis
    using published_send_doc [of E h req_id doc s]
      published_send_doc [of E h req_id doc "s\<lparr>sy_trace := sy_trace s @ [Malloc]\<rparr>"]
    by (auto simp: respond_def answers_def visible_simps)
qed


section \<open>The set in the kernel\<close>

text \<open>
  The address a command line adds to the set, or takes out of it, and the set after a history of calls,
  started from \<open>S\<close>. The kernel is behind \<open>nft\<close>: \<open>nft_kernel\<close> is the documented behaviour of a
  working one. Adding succeeds, getting an element succeeds exactly for members, and a listing shows
  members only; nothing is said of the other commands and of their status.
\<close>

definition named_mac :: "(string \<Rightarrow> string) \<Rightarrow> nat \<Rightarrow> string \<Rightarrow> string option" where
  "named_mac args k cmd = (let m = take 17 (drop k cmd)
     in if canonical_mac m \<and> cmd = nft_cmd (args m) then Some m else None)"

definition added :: "string \<Rightarrow> string \<Rightarrow> string \<Rightarrow> string option" where
  "added table nset = named_mac (add_args table nset) (length table + length nset + 20)"

definition deleted :: "string \<Rightarrow> string \<Rightarrow> string \<Rightarrow> string option" where
  "deleted table nset = named_mac (delete_args table nset) (length table + length nset + 23)"

definition set_step :: "string \<Rightarrow> string \<Rightarrow> call \<Rightarrow> string set \<Rightarrow> string set" where
  "set_step table nset c S = (case c of
      Popen_read cmd \<Rightarrow> (case added table nset cmd of
          Some m \<Rightarrow> insert m S
        | None \<Rightarrow> (case deleted table nset cmd of Some m \<Rightarrow> S - {m} | None \<Rightarrow> S))
    | _ \<Rightarrow> S)"

definition set_after :: "string \<Rightarrow> string \<Rightarrow> string set \<Rightarrow> history \<Rightarrow> string set" where
  "set_after table nset S h = foldl (\<lambda>S c. set_step table nset c S) S h"

definition nft_kernel :: "env \<Rightarrow> string \<Rightarrow> string \<Rightarrow> string set \<Rightarrow> bool" where
  "nft_kernel E table nset S \<longleftrightarrow>
     (\<forall>h m. canonical_mac m \<longrightarrow>
        nft_rc (e_popen E (h @ [Popen_read (nft_cmd (add_args table nset m))])) = 0 \<and>
        e_system E (h @ [System (get_cmd table nset m)]) = (if m \<in> set_after table nset S h then 0 else 256)) \<and>
     (\<forall>h. set (listing E (list_cmd table nset) h) \<subseteq> set_after table nset S h)"

definition names_fit :: "string \<Rightarrow> string \<Rightarrow> bool" where
  "names_fit table nset \<longleftrightarrow> length table + length nset \<le> 150"

lemma named_mac_at:
  "canonical_mac m \<Longrightarrow> nft_cmd (args m) = p @ m @ r \<Longrightarrow> length p = k \<Longrightarrow> named_mac args k (nft_cmd (args m)) = Some m"
  by (auto simp: named_mac_def canonical_mac_def)

lemma added_add: "canonical_mac m \<Longrightarrow> added table nset (nft_cmd (add_args table nset m)) = Some m"
  unfolding added_def
  by (rule named_mac_at [where p = "''nft add element '' @ table @ '' '' @ nset @ '' { ''"])
    (simp_all add: command_texts)

lemma deleted_delete: "canonical_mac m \<Longrightarrow> deleted table nset (nft_cmd (delete_args table nset m)) = Some m"
  unfolding deleted_def
  by (rule named_mac_at [where p = "''nft delete element '' @ table @ '' '' @ nset @ '' { ''"])
    (simp_all add: command_texts)

lemma added_delete: "added table nset (nft_cmd (delete_args table nset m)) = None"
  by (simp add: added_def named_mac_def Let_def command_texts)

lemma query_no_update: "nft_query table nset c \<Longrightarrow> set_step table nset c S = S"
proof -
  have l: "added table nset (list_cmd table nset) = None" "deleted table nset (list_cmd table nset) = None"
    by (simp_all add: added_def deleted_def named_mac_def Let_def command_texts)
  have g: "is_log c \<Longrightarrow> set_step table nset c S = S"
    by (cases c) (simp_all add: set_step_def)
  assume "nft_query table nset c"
  with l g show ?thesis by (auto simp: nft_query_def set_step_def)
qed

lemma set_after_append: "set_after table nset S (h @ t) = set_after table nset (set_after table nset S h) t"
  by (simp add: set_after_def)

lemma set_after_Nil [simp]: "set_after table nset S [] = S"
  and set_after_Cons [simp]: "set_after table nset S (c # t) = set_after table nset (set_step table nset c S) t"
  by (simp_all add: set_after_def)

lemma set_after_quiet: "list_all (\<lambda>c. \<forall>S. set_step table nset c S = S) t \<Longrightarrow> set_after table nset S t = S"
  by (induction t) simp_all

lemma set_after_emits:
  assumes "emits (\<lambda>c. \<forall>S. set_step table nset c S = S) m"
  shows "set_after table nset S (sy_trace (snd (run_state m s))) = set_after table nset S (sy_trace s)"
  using emits_trace [OF assms, of s] by (auto simp: set_after_append set_after_quiet)

lemma set_after_visible: "set_after table nset S (visible t) = set_after table nset S t"
proof (induction t arbitrary: S)
  case (Cons c t)
  have "set_step table nset c S = S" if "is_log c"
    using that by (intro query_no_update nft_queryI)
  with Cons show ?case by (auto simp: visible_simps)
qed (simp add: visible_simps)


lemma length_args:
  "names_fit table nset \<Longrightarrow> canonical_mac m \<Longrightarrow>
     length (add_args table nset m) < 768 \<and> length (delete_args table nset m) < 768"
  by (simp add: names_fit_def canonical_mac_def add_args_def delete_args_def format.simps)

lemma block_effect:
  assumes "nft_kernel E table nset S" "names_fit table nset" "np_mac_normalize t = Some m"
  shows "fst (run_state (np_nft_block E table nset t) s) = 0 \<and>
    set_after table nset S (sy_trace (snd (run_state (np_nft_block E table nset t) s)))
      = insert m (set_after table nset S (sy_trace s))"
proof -
  have c: "canonical_mac m" using mac.canonical [OF assms(3)] .
  obtain u rc where u: "run_state (run_nft E (add_args table nset m)) s = (rc, s\<lparr>sy_trace := sy_trace s @ u\<rparr>)"
    "visible u = [Popen_read (nft_cmd (add_args table nset m))]"
    "rc = nft_rc (nft_answer E s (add_args table nset m))"
    using length_args [OF assms(2) c] by - (rule run_nftE [of E "add_args table nset m" s], auto)
  have "rc = 0"
    using assms(1) [unfolded nft_kernel_def, THEN conjunct1, rule_format, OF c, THEN conjunct1,
        of "sy_trace s @ log_calls E NP_LOG_DBG (format ''exec: %s'' [nft_cmd (add_args table nset m)]) s"] u(3)
    by (simp add: nft_answer_def)
  moreover have "set_after table nset A u = insert m A" for A
    using set_after_visible [of table nset A u] u(2) by (simp add: set_step_def added_add [OF c])
  moreover have "set_after table nset A (log_calls E lv msg s1) = A" for A lv msg s1
    using set_after_visible [of table nset A "log_calls E lv msg s1"] by (simp add: visible_simps)
  ultimately show ?thesis
    using u(1) assms(3) by (simp add: np_nft_block_def add_args_def [symmetric] set_after_append)
qed

lemma unblock_effect:
  assumes "names_fit table nset" "np_mac_normalize t = Some m"
  shows "fst (run_state (np_nft_unblock E table nset t) s) = 0 \<and>
    set_after table nset S (sy_trace (snd (run_state (np_nft_unblock E table nset t) s)))
      = set_after table nset S (sy_trace s) - {m}"
proof -
  have c: "canonical_mac m" using mac.canonical [OF assms(2)] .
  obtain u rc where u: "run_state (run_nft E (delete_args table nset m)) s = (rc, s\<lparr>sy_trace := sy_trace s @ u\<rparr>)"
    "visible u = [Popen_read (nft_cmd (delete_args table nset m))]"
    using length_args [OF assms(1) c] by - (rule run_nftE [of E "delete_args table nset m" s], auto)
  have "set_after table nset A u = A - {m}" for A
    using set_after_visible [of table nset A u] u(2)
    by (simp add: set_step_def added_delete deleted_delete [OF c])
  moreover have "set_after table nset A (log_calls E lv msg s1) = A" for A lv msg s1
    using set_after_visible [of table nset A "log_calls E lv msg s1"] by (simp add: visible_simps)
  ultimately show ?thesis
    using u(1) assms(2) by (simp add: np_nft_unblock_def delete_args_def [symmetric] set_after_append)
qed

lemma is_blocked_effect:
  assumes "nft_kernel E table nset S" "np_mac_normalize t = Some m"
  shows "fst (run_state (np_nft_is_blocked E table nset t) s)
      = (if m \<in> set_after table nset S (sy_trace s) then 1 else 0)"
proof -
  have "canonical_mac m" using mac.canonical [OF assms(2)] .
  with assms(1) have "e_system E (sy_trace s @ [System (get_cmd table nset m)])
      = (if m \<in> set_after table nset S (sy_trace s) then 0 else 256)"
    by (simp add: nft_kernel_def)
  with assms(2) show ?thesis by (simp add: np_nft_is_blocked_def get_cmd_def [symmetric] Let_def)
qed

text \<open>A command as an operation on the set of blocked addresses, and its answer.\<close>

definition abstract_set :: "string \<Rightarrow> string option \<Rightarrow> string set \<Rightarrow> string set" where
  "abstract_set action mac S = (case Option.bind mac np_mac_normalize of
      None \<Rightarrow> S
    | Some m \<Rightarrow> if action = ''block'' then insert m S else if action = ''unblock'' then S - {m} else S)"

definition failure_text :: "string \<Rightarrow> string" where
  "failure_text action = (if action = ''block'' then ''nft block failed''
     else if action = ''unblock'' then ''nft unblock failed'' else ''lookup failed'')"

definition abstract_doc :: "string \<Rightarrow> string option \<Rightarrow> string set \<Rightarrow> json" where
  "abstract_doc action mac S =
     (if action \<in> {''block'', ''unblock'', ''status''} then
        (case mac of
           None \<Rightarrow> err_doc action ''mac required''
         | Some t \<Rightarrow> (case np_mac_normalize t of
             None \<Rightarrow> err_doc action (failure_text action)
           | Some m \<Rightarrow> if action = ''status''
                        then ok_doc action ''blocked'' (if m \<in> S then ''true'' else ''false'')
                        else ok_doc action ''mac'' t))
      else if action = ''ping'' then ok_doc action ''pong'' ''1''
      else err_doc action ''unknown action'')"

definition updates :: "string \<Rightarrow> string option \<Rightarrow> bool" where
  "updates action mac \<longleftrightarrow> action \<in> {''block'', ''unblock''} \<and> Option.bind mac np_mac_normalize \<noteq> None"

lemma nft_query_quiet: "nft_query table nset c \<Longrightarrow> \<forall>S. set_step table nset c S = S"
  using query_no_update by blast

lemma invalid_mac:
  assumes "np_mac_normalize t = None"
  shows "run_state (np_nft_block E table nset t) s = (-1, s)" "run_state (np_nft_unblock E table nset t) s = (-1, s)"
    "run_state (np_nft_is_blocked E table nset t) s = (-1, s)"
  using assms by (simp_all add: np_nft_block_def np_nft_unblock_def np_nft_is_blocked_def)

lemma set_after_is_blocked:
  "set_after table nset S (sy_trace (snd (run_state (np_nft_is_blocked E table nset t) s)))
     = set_after table nset S (sy_trace s)"
  by (rule set_after_emits [OF emits_mono [OF emits_is_blocked_query nft_query_quiet]])

lemma set_after_list:
  "set_after table nset S (sy_trace (snd (run_state (np_nft_list E table nset (\<lambda>m ms. ret (ms @ [m])) u) s)))
     = set_after table nset S (sy_trace s)"
proof (rule set_after_emits)
  show "emits (\<lambda>c. \<forall>S. set_step table nset c S = S) (np_nft_list E table nset (\<lambda>m ms. ret (ms @ [m])) u)"
    by (intro emits_list emits_return nft_query_quiet nft_queryI) (simp add: scan_macs_canonical)
qed

lemma command_doc_abstract:
  assumes "nft_kernel E (h_table h) (h_nset h) S" "names_fit (h_table h) (h_nset h)"
  shows "set_after (h_table h) (h_nset h) S (sy_trace (snd (run_state (command_doc E h action mac) s)))
      = abstract_set action mac (set_after (h_table h) (h_nset h) S (sy_trace s))"
    "snd (fst (run_state (command_doc E h action mac) s)) = updates action mac"
    "action \<noteq> ''list'' \<Longrightarrow> fst (fst (run_state (command_doc E h action mac) s))
      = abstract_doc action mac (set_after (h_table h) (h_nset h) S (sy_trace s))"
proof -
  let ?after = "set_after (h_table h) (h_nset h) S"
  have logs: "?after (t @ log_calls E lv msg s1) = ?after t" for t lv msg s1
    using set_after_visible [of "h_table h" "h_nset h" _ "log_calls E lv msg s1"]
    by (simp add: visible_simps set_after_append)
  have all: "?after (sy_trace (snd (run_state (command_doc E h action mac) s)))
      = abstract_set action mac (?after (sy_trace s)) \<and>
    snd (fst (run_state (command_doc E h action mac) s)) = updates action mac \<and>
    (action \<noteq> ''list'' \<longrightarrow> fst (fst (run_state (command_doc E h action mac) s))
      = abstract_doc action mac (?after (sy_trace s)))"
  proof (cases "Option.bind mac np_mac_normalize")
    case None
    then consider "mac = None" | t where "mac = Some t" "np_mac_normalize t = None"
      by (cases mac) auto
    then show ?thesis
      using set_after_list
      by cases (auto simp: command_doc_def abstract_set_def abstract_doc_def updates_def failure_text_def
          invalid_mac case_prod_beta logs)
  next
    case (Some m)
    then obtain t where t: "mac = Some t" "np_mac_normalize t = Some m" by (cases mac) auto
    then show ?thesis
      using set_after_list block_effect [OF assms t(2), of s] unblock_effect [OF assms(2) t(2), of E s S]
        is_blocked_effect [OF assms(1) t(2), of s] set_after_is_blocked
      by (auto simp: command_doc_def abstract_set_def abstract_doc_def updates_def case_prod_beta logs)
  qed
  then show "?after (sy_trace (snd (run_state (command_doc E h action mac) s)))
      = abstract_set action mac (?after (sy_trace s))"
    "snd (fst (run_state (command_doc E h action mac) s)) = updates action mac"
    "action \<noteq> ''list'' \<Longrightarrow> fst (fst (run_state (command_doc E h action mac) s))
      = abstract_doc action mac (?after (sy_trace s))" by blast+
qed


section \<open>Whole messages\<close>

lemma republish_state: "h_ok h \<Longrightarrow> h_ok (fst (run_state (republish E h) s))"
proof (cases "h_leases h")
  case None
  moreover assume "h_ok h"
  ultimately show ?thesis by (simp add: republish_def np_leases_republish_def h_ok_def)
next
  case (Some l)
  moreover assume "h_ok h"
  moreover obtain devs where "fst (run_state (np_leases_republish E (Some l)) s) = Some (settled l devs)"
    "table_wf devs" "table_sorted devs" by (rule republish_settled)
  ultimately show ?thesis
    using leases_inv_settled [of devs l]
    by (simp add: republish_def case_prod_beta h_ok_def) (simp add: settled_def)
qed

lemma republish_frame:
  "h_cfg (fst (run_state (republish E h) s)) = h_cfg h" "h_mqtt (fst (run_state (republish E h) s)) = h_mqtt h"
  by (simp_all add: republish_def case_prod_beta)

lemma run_decomposed:
  obtains doc again s1 s2 where "run_state (command_doc E h action mac) s = ((doc, again), s1)"
    "run_state (respond E h action req_id doc) s1 = ((), s2)"
    "run_state (handle_command E h action mac req_id) s =
       (if again then run_state (republish E h) s2 else (h, s2))"
proof -
  obtain doc again s1 where r: "run_state (command_doc E h action mac) s = ((doc, again), s1)"
    by (metis surj_pair)
  obtain s2 where "run_state (respond E h action req_id doc) s1 = ((), s2)" by (metis surj_pair old.unit.exhaust)
  with r that show thesis by (simp add: handle_command_decomposed)
qed

lemma handle_command_state:
  "h_cfg (fst (run_state (handle_command E h action mac req_id) s)) = h_cfg h"
  "h_mqtt (fst (run_state (handle_command E h action mac req_id) s)) = h_mqtt h"
  "h_ok h \<Longrightarrow> h_ok (fst (run_state (handle_command E h action mac req_id) s))"
  by (rule run_decomposed [of E h action mac s req_id]; simp add: republish_frame republish_state)+

text \<open>Every run of \<open>np_handle_message\<close> drops the message or is the run of its command.\<close>

definition mac_of :: "env \<Rightarrow> json \<Rightarrow> string option" where
  "mac_of E j = json_string (e_get E j ''mac'')"

definition req_of :: "env \<Rightarrow> json \<Rightarrow> string option" where
  "req_of E j = json_string (e_get E j ''req_id'')"

lemma message_cases:
  obtains s' where "run_state (np_handle_message E topic payload h) s = (h, s')"
    "published (sy_trace s') = published (sy_trace s)" "shell (sy_trace s') = shell (sy_trace s)"
  | action j s' where "parse_action topic (str (device_id (h_cfg h))) = Some action"
    "run_state (np_handle_message E topic payload h) s =
       run_state (handle_command E h action (mac_of E j) (req_of E j)) s'"
    "published (sy_trace s') = published (sy_trace s)" "shell (sy_trace s') = shell (sy_trace s)"
proof (cases "parse_action topic (str (device_id (h_cfg h)))")
  case None
  with that(1) show thesis by (simp add: np_handle_message_def visible_simps)
next
  case (Some action)
  note act = Some
  let ?t = "sy_trace s @ [Malloc]"
  let ?s1 = "s\<lparr>sy_trace := ?t\<rparr>"
  let ?get = "if length payload > 0
      then ask (e_parse E) (Json_parse (c_str payload))
      else do { ok \<leftarrow> ask (e_malloc E) Malloc; ret (if ok then Some (JObj []) else None) }"
  obtain json s2 where g: "run_state ?get ?s1 = (json, s2)" by (metis surj_pair)
  have "published (sy_trace s2) = published (sy_trace s) \<and> shell (sy_trace s2) = shell (sy_trace s)"
    using g by (auto simp: visible_simps split: if_splits)
  then have q: "published (sy_trace s2) = published (sy_trace s)" "shell (sy_trace s2) = shell (sy_trace s)"
    by blast+
  note unf = np_handle_message_def act option.case Let_def mac_of_def [symmetric] req_of_def [symmetric]
  show thesis
  proof (cases "e_malloc E ?t")
    case False
    with act that(1) show thesis by (simp add: np_handle_message_def visible_simps)
  next
    case True
    show thesis
    proof (cases json)
      case None
      with True g q that(1) show thesis unfolding unf by (simp add: visible_simps)
    next
      case (Some j)
      with True g q that(2) [OF act] show thesis unfolding unf by (simp add: visible_simps)
    qed
  qed
qed

lemma parsed_message:
  assumes "parse_action topic (str (device_id (h_cfg h))) = Some action" "\<And>t. e_malloc E t" "payload \<noteq> []"
    and "\<And>t. e_parse E (t @ [Json_parse (c_str payload)]) = Some j"
  obtains s' where "run_state (np_handle_message E topic payload h) s =
       run_state (handle_command E h action (mac_of E j) (req_of E j)) s'"
    "visible (sy_trace s') = visible (sy_trace s) @ [Malloc, Json_parse (c_str payload)]"
proof -
  have "e_parse E (sy_trace s @ [Malloc, Json_parse (c_str payload)]) = Some j"
    using assms(4) [of "sy_trace s @ [Malloc]"] by simp
  with that assms(1-3) show thesis
    by (simp add: np_handle_message_def Let_def mac_of_def [symmetric] req_of_def [symmetric] visible_simps)
qed


lemma respond_answers:
  assumes "prints_with E render" "mqtt_live (h_mqtt h)" "\<And>t. e_malloc E t" "req_id = Some r" "r \<noteq> []"
  shows "published (sy_trace (snd (run_state (respond E h action req_id doc) s))) = published (sy_trace s)
      @ [(response_topic (mqtt_id (h_mqtt h)) r, render doc, 1, False)]"
proof -
  have "published (sy_trace (snd (run_state (send_doc E h (Some r) doc) s1))) = published (sy_trace s1)
      @ [(response_topic (mqtt_id (h_mqtt h)) r, render doc, 1, False)]" for s1
    using assms(1-3) by (simp add: send_doc_def prints_with_def case_prod_beta published_response visible_simps)
  then show ?thesis using assms(3-5) by (simp add: respond_def visible_simps)
qed

lemma set_after_log: "is_log c \<Longrightarrow> set_step table nset c S = S"
  by (rule query_no_update [OF nft_queryI(1)])

lemma respond_quiet: "respond_call h req_id c \<Longrightarrow> set_step table nset c S = S"
  using set_after_log by (auto simp: respond_call_def) (auto simp: set_step_def)

lemma leases_quiet: "leases_call l c \<Longrightarrow> set_step (lz_table l) (lz_nset l) c S = S"
  using query_no_update by (auto simp: leases_call_def) (auto simp: set_step_def)

lemma set_after_respond:
  "set_after table nset S (sy_trace (snd (run_state (respond E h action req_id doc) s)))
     = set_after table nset S (sy_trace s)"
  by (rule set_after_emits [OF emits_mono [OF emits_respond]]) (simp add: respond_quiet)

lemma set_after_republish:
  assumes "h_ok h"
  shows "set_after (h_table h) (h_nset h) S (sy_trace (snd (run_state (republish E h) s)))
     = set_after (h_table h) (h_nset h) S (sy_trace s)"
proof (rule set_after_emits [OF emits_mono [OF emits_republish_handler]])
  fix c
  assume "\<exists>l. h_leases h = Some l \<and> leases_call l c"
  then obtain l where "h_leases h = Some l" "leases_call l c" by blast
  with leases_quiet [of l c] assms show "\<forall>S. set_step (h_table h) (h_nset h) c S = S"
    by (simp add: h_ok_def)
qed

lemma handle_command_set:
  assumes "nft_kernel E (h_table h) (h_nset h) S" "names_fit (h_table h) (h_nset h)" "h_ok h"
  shows "set_after (h_table h) (h_nset h) S (sy_trace (snd (run_state (handle_command E h action mac req_id) s)))
      = abstract_set action mac (set_after (h_table h) (h_nset h) S (sy_trace s))"
proof -
  obtain doc again s1 s2 where r: "run_state (command_doc E h action mac) s = ((doc, again), s1)"
    "run_state (respond E h action req_id doc) s1 = ((), s2)"
    "run_state (handle_command E h action mac req_id) s = (if again then run_state (republish E h) s2 else (h, s2))"
    by (rule run_decomposed)
  have "set_after (h_table h) (h_nset h) S (sy_trace s2) = set_after (h_table h) (h_nset h) S (sy_trace s1)"
    using arg_cong [where f = "\<lambda>x. snd x", OF r(2)] set_after_respond by (metis snd_conv)
  with r command_doc_abstract(1) [OF assms(1,2), of action mac s] set_after_republish [OF assms(3)]
  show ?thesis by simp
qed

text \<open>
  The topics of the watcher are no response topics: behind the device id they go on with another letter, and
  one that the buffer cut off before that is shorter than every response topic.
\<close>

lemma cut_topic_differs:
  assumes "y \<noteq> []" "x = [] \<or> hd x \<noteq> hd y"
  shows "take k (p @ x) \<noteq> p @ y"
proof
  assume e: "take k (p @ x) = p @ y"
  then have "length (take k (p @ x)) = length p + length y" by simp
  then have "length p < k" using assms(1) by (cases y) (auto simp: min_def split: if_splits)
  with e have "take (k - length p) x = y" by simp
  with assms \<open>length p < k\<close> show False by (cases x; cases "k - length p") auto
qed

lemma watcher_topics_no_response:
  "event_topic i kind \<noteq> response_topic i r" "devices_topic i \<noteq> response_topic i r"
  using cut_topic_differs [of "''response/'' @ r" "''event/'' @ kind" 159 "''netparent/'' @ i @ ''/''"]
    cut_topic_differs [of "''response/'' @ r" "''devices''" 127 "''netparent/'' @ i @ ''/''"]
  by (simp_all add: event_topic_def devices_topic_def response_topic_def)

definition watcher_only :: "string \<Rightarrow> (string \<times> string \<times> int \<times> bool) list \<Rightarrow> bool" where
  "watcher_only i ms \<longleftrightarrow> list_all (\<lambda>x. fst x \<in> {event_topic i ''device'', devices_topic i} \<and>
     (\<forall>r. fst x \<noteq> response_topic i r)) ms"

lemma published_republish_handler:
  assumes "h_ok h"
  obtains rest where "published (sy_trace (snd (run_state (republish E h) s))) = published (sy_trace s) @ rest"
    "watcher_only (mqtt_id (h_mqtt h)) rest"
proof -
  obtain rest where rest: "published (sy_trace (snd (run_state (republish E h) s))) = published (sy_trace s) @ rest"
    "\<forall>x \<in> set rest. \<exists>c. (\<exists>l. h_leases h = Some l \<and> leases_call l c) \<and> x \<in> set (message_of c)"
    by (rule emits_published [OF emits_republish_handler])
  have "lz_mqtt l = h_mqtt h" if "h_leases h = Some l" for l using assms that by (simp add: h_ok_def)
  then have t: "fst x = event_topic (mqtt_id (h_mqtt h)) ''device'' \<or> fst x = devices_topic (mqtt_id (h_mqtt h))"
    if "x \<in> set rest" for x
    using rest(2) that nft_query_silent by (fastforce simp: leases_call_def)
  have "watcher_only (mqtt_id (h_mqtt h)) rest"
    unfolding watcher_only_def list_all_iff
  proof (intro ballI conjI allI)
    fix x r
    assume "x \<in> set rest"
    from t [OF this] show "fst x \<in> {event_topic (mqtt_id (h_mqtt h)) ''device'', devices_topic (mqtt_id (h_mqtt h))}"
      "fst x \<noteq> response_topic (mqtt_id (h_mqtt h)) r"
      using watcher_topics_no_response [of "mqtt_id (h_mqtt h)"] by auto
  qed
  with rest(1) that show thesis by blast
qed

lemma run_command_list:
  "run_state (command_doc E h ''list'' mac) s =
     ((list_doc (listing E (list_cmd (h_table h) (h_nset h)) (sy_trace s)), False),
      s\<lparr>sy_trace := sy_trace s @ [Popen_read (list_cmd (h_table h) (h_nset h))]\<rparr>)"
proof -
  have collect: "fold_np (\<lambda>m ms. ret (ms @ [m])) ms acc = ret (acc @ ms)" for ms acc :: "string list"
    by (induction ms arbitrary: acc) simp_all
  show ?thesis
    by (auto simp: command_doc_def np_nft_list_def list_cmd_def [symmetric] listing_def Let_def collect
        split: option.splits)
qed

text \<open>The document a command is answered with, in terms of the set before it.\<close>

definition answer_doc :: "string \<Rightarrow> string option \<Rightarrow> string set \<Rightarrow> json \<Rightarrow> bool" where
  "answer_doc action mac S doc \<longleftrightarrow>
     (if action = ''list'' then \<exists>ms. set ms \<subseteq> S \<and> doc = list_doc ms else doc = abstract_doc action mac S)"

lemma command_answer_doc:
  assumes "nft_kernel E (h_table h) (h_nset h) S" "names_fit (h_table h) (h_nset h)"
  shows "answer_doc action mac (set_after (h_table h) (h_nset h) S (sy_trace s))
     (fst (fst (run_state (command_doc E h action mac) s)))"
proof (cases "action = ''list''")
  case True
  have "set (listing E (list_cmd (h_table h) (h_nset h)) (sy_trace s))
      \<subseteq> set_after (h_table h) (h_nset h) S (sy_trace s)"
    using assms(1) by (simp add: nft_kernel_def)
  with True show ?thesis unfolding answer_doc_def True run_command_list by auto
next
  case False
  with command_doc_abstract(3) [OF assms] show ?thesis by (simp add: answer_doc_def)
qed

text \<open>
  A message that is read as the object \<open>j\<close>, in a working kernel: its command, then the response, then
  what the watcher publishes.
\<close>

lemma handled_message:
  assumes "nft_kernel E (h_table h) (h_nset h) S" "names_fit (h_table h) (h_nset h)" "h_ok h"
    and "parse_action topic (str (device_id (h_cfg h))) = Some action" "\<And>t. e_malloc E t" "payload \<noteq> []"
    and "\<And>t. e_parse E (t @ [Json_parse (c_str payload)]) = Some j"
    and "run_state (np_handle_message E topic payload h) s = (h', s')"
    and now: "now = set_after (h_table h) (h_nset h) S (sy_trace s)"
  obtains doc s1 s2 rest where "run_state (respond E h action (req_of E j) doc) s1 = ((), s2)"
    "answer_doc action (mac_of E j) now doc" "published (sy_trace s1) = published (sy_trace s)"
    "published (sy_trace s') = published (sy_trace s2) @ rest" "watcher_only (mqtt_id (h_mqtt h)) rest"
    "\<not> updates action (mac_of E j) \<longrightarrow> rest = [] \<and> h' = h"
    "set_after (h_table h) (h_nset h) S (sy_trace s') = abstract_set action (mac_of E j) now"
proof -
  let ?after = "set_after (h_table h) (h_nset h) S"
  obtain s0 where s0: "run_state (np_handle_message E topic payload h) s =
       run_state (handle_command E h action (mac_of E j) (req_of E j)) s0"
    "visible (sy_trace s0) = visible (sy_trace s) @ [Malloc, Json_parse (c_str payload)]"
    by (rule parsed_message [OF assms(4-7)])
  have hs: "run_state (handle_command E h action (mac_of E j) (req_of E j)) s0 = (h', s')"
    using trans [OF s0(1) [symmetric] assms(8)] .
  have p0: "published (sy_trace s0) = published (sy_trace s)"
    using arg_cong [where f = published, OF s0(2)] by (simp add: published_of_visible visible_simps)
  have now0: "?after (sy_trace s0) = now"
    using arg_cong [where f = ?after, OF s0(2)] unfolding now
    by (simp add: set_after_visible set_after_append set_step_def)
  obtain doc again s1 s2 where r: "run_state (command_doc E h action (mac_of E j)) s0 = ((doc, again), s1)"
    "run_state (respond E h action (req_of E j) doc) s1 = ((), s2)"
    "run_state (handle_command E h action (mac_of E j) (req_of E j)) s0 =
       (if again then run_state (republish E h) s2 else (h, s2))"
    by (rule run_decomposed)
  have fin: "if again then run_state (republish E h) s2 = (h', s') else h' = h \<and> s' = s2"
    using trans [OF r(3) [symmetric] hs] by (cases again) auto
  obtain rest where rest: "published (sy_trace (snd (run_state (republish E h) s2))) = published (sy_trace s2) @ rest"
    "watcher_only (mqtt_id (h_mqtt h)) rest" by (rule published_republish_handler [OF assms(3)])
  show thesis
  proof (rule that [OF r(2), of "if again then rest else []"])
    show "answer_doc action (mac_of E j) now doc"
      using command_answer_doc [OF assms(1,2), of action "mac_of E j" s0] r(1) now0 by simp
    show "published (sy_trace s1) = published (sy_trace s)"
      using published_command_doc [of E h action "mac_of E j" s0] r(1) p0 by simp
    show "published (sy_trace s') = published (sy_trace s2) @ (if again then rest else [])"
      using fin rest(1) by (cases again) auto
    show "watcher_only (mqtt_id (h_mqtt h)) (if again then rest else [])"
      using rest(2) by (simp add: watcher_only_def)
    show "\<not> updates action (mac_of E j) \<longrightarrow> (if again then rest else []) = [] \<and> h' = h"
      using command_doc_abstract(2) [OF assms(1,2), of action "mac_of E j" s0] r(1) fin by auto
    show "?after (sy_trace s') = abstract_set action (mac_of E j) now"
      using handle_command_set [OF assms(1-3), of action "mac_of E j" "req_of E j" s0] hs now0 by simp
  qed
qed


text \<open>A list of commands (action, mac, request id) as one operation on the set.\<close>

type_synonym command = "string \<times> string option \<times> string option"

definition abstract_commands :: "command list \<Rightarrow> string set \<Rightarrow> string set" where
  "abstract_commands cs S = foldl (\<lambda>S (action, mac, req_id). abstract_set action mac S) S cs"


section \<open>Properties\<close>

text \<open>
  C22: the topic filter accepts exactly the topics \<open>netparent/ID/cmd/ACTION\<close> with a non-empty action,
  and gives the action, while the device id has at most 112 bytes; with a longer one it accepts nothing.
\<close>

theorem parse_action_iff:
  "parse_action topic i = Some a \<longleftrightarrow> length i \<le> 112 \<and> topic = ''netparent/'' @ i @ ''/cmd/'' @ a \<and> a \<noteq> []"
proof -
  let ?full = "''netparent/'' @ i @ ''/cmd/''"
  have f: "format ''netparent/%s/cmd/'' [i] = ?full" by (simp add: format.simps)
  have n: "length ?full = length i + 15" by simp
  show ?thesis
  proof (cases "length i \<le> 112")
    case True
    then have p: "snprintf 128 ''netparent/%s/cmd/'' [i] = ?full"
      by (simp add: snprintf_def f)
    have "parse_action topic i = (if take (length ?full) topic \<noteq> ?full then None
        else if drop (length ?full) topic = [] then None else Some (drop (length ?full) topic))"
      using True unfolding parse_action_def p f by (simp add: strncmp_def Let_def)
    moreover have "take (length ?full) topic = ?full \<and> drop (length ?full) topic = a \<longleftrightarrow> topic = ?full @ a"
      by (metis append_eq_conv_conj append_take_drop_id)
    ultimately show ?thesis using True by auto
  next
    case False
    then show ?thesis by (simp add: parse_action_def f)
  qed
qed

text \<open>
  C12: every message ends in at most one response, sent before anything else and under the request id of
  the message, not retained; the rest of what it publishes is the snapshot and the events of the watcher.
\<close>

theorem message_one_response:
  "\<exists>ms rest j. published (sy_trace (snd (run_state (np_handle_message E topic payload h) s)))
      = published (sy_trace s) @ ms @ rest \<and> answers h (req_of E j) ms \<and>
    list_all (\<lambda>x. \<exists>l. h_leases h = Some l \<and>
      fst x \<in> {event_topic (lz_id l) ''device'', devices_topic (lz_id l)}) rest"
proof (rule message_cases [of E topic payload h s])
  fix s'
  assume "run_state (np_handle_message E topic payload h) s = (h, s')"
    "published (sy_trace s') = published (sy_trace s)"
  then show ?thesis by (intro exI [of _ "[]"]) (simp add: answers_def)
next
  fix action j s'
  assume m: "run_state (np_handle_message E topic payload h) s =
       run_state (handle_command E h action (mac_of E j) (req_of E j)) s'"
    "published (sy_trace s') = published (sy_trace s)"
  obtain doc again s1 s2 where r: "run_state (command_doc E h action (mac_of E j)) s' = ((doc, again), s1)"
    "run_state (respond E h action (req_of E j) doc) s1 = ((), s2)"
    "run_state (handle_command E h action (mac_of E j) (req_of E j)) s' =
       (if again then run_state (republish E h) s2 else (h, s2))"
    by (rule run_decomposed)
  have p1: "published (sy_trace s1) = published (sy_trace s)"
    using published_command_doc [of E h action "mac_of E j" s'] r(1) m(2) by simp
  obtain ms where ms: "published (sy_trace s2) = published (sy_trace s1) @ ms" "answers h (req_of E j) ms"
    using published_respond [where E = E and h = h and action = action and req_id = "req_of E j" and doc = doc and s = s1] r(2) by auto
  obtain rest where rest: "published (sy_trace (snd (run_state (republish E h) s2))) = published (sy_trace s2) @ rest"
    "\<forall>x \<in> set rest. \<exists>c. (\<exists>l. h_leases h = Some l \<and> leases_call l c) \<and> x \<in> set (message_of c)"
    by (rule emits_published [OF emits_republish_handler])
  have "list_all (\<lambda>x. \<exists>l. h_leases h = Some l \<and>
      fst x \<in> {event_topic (lz_id l) ''device'', devices_topic (lz_id l)}) rest"
    using rest(2) nft_query_silent
    by (fastforce simp: list_all_iff leases_call_def)
  with m r p1 ms rest(1) show ?thesis
    by (intro exI [of _ ms] exI [of _ "if again then rest else []"] exI [of _ j]) simp
qed


text \<open>
  C2: end to end. With a working kernel, memory, parser, printer and client, a message on a command topic
  that carries a request id is answered exactly once, first, and with the answer of the abstract set of
  blocked addresses: \<open>block\<close> and \<open>unblock\<close> put the address in and take it out, \<open>status\<close> tells
  whether it is in, whatever the spelling of the address, \<open>list\<close> names members only, and every error has
  its text. What follows is empty unless a table was updated, and then it goes to the two topics of the
  watcher, neither of which is a response topic.
\<close>

theorem message_end_to_end:
  assumes "nft_kernel E (h_table h) (h_nset h) S" "names_fit (h_table h) (h_nset h)" "h_ok h"
    and "parse_action topic (str (device_id (h_cfg h))) = Some action"
    and "\<And>t. e_malloc E t" "prints_with E render" "mqtt_live (h_mqtt h)"
    and "payload \<noteq> []" "\<And>t. e_parse E (t @ [Json_parse (c_str payload)]) = Some j"
    and "req_of E j = Some r" "r \<noteq> []"
    and "run_state (np_handle_message E topic payload h) s = (h', s')"
    and now: "now = set_after (h_table h) (h_nset h) S (sy_trace s)"
  shows "\<exists>doc rest. published (sy_trace s') = published (sy_trace s)
      @ (response_topic (mqtt_id (h_mqtt h)) r, render doc, 1, False) # rest
      \<and> answer_doc action (mac_of E j) now doc
      \<and> watcher_only (mqtt_id (h_mqtt h)) rest
      \<and> (\<not> updates action (mac_of E j) \<longrightarrow> rest = [] \<and> h' = h)
      \<and> set_after (h_table h) (h_nset h) S (sy_trace s') = abstract_set action (mac_of E j) now"
proof -
  obtain doc s1 s2 rest where m: "run_state (respond E h action (req_of E j) doc) s1 = ((), s2)"
    "answer_doc action (mac_of E j) now doc" "published (sy_trace s1) = published (sy_trace s)"
    "published (sy_trace s') = published (sy_trace s2) @ rest" "watcher_only (mqtt_id (h_mqtt h)) rest"
    "\<not> updates action (mac_of E j) \<longrightarrow> rest = [] \<and> h' = h"
    "set_after (h_table h) (h_nset h) S (sy_trace s') = abstract_set action (mac_of E j) now"
    by (rule handled_message [OF assms(1-5,8,9,12,13)])
  have "published (sy_trace s2) = published (sy_trace s1)
      @ [(response_topic (mqtt_id (h_mqtt h)) r, render doc, 1, False)]"
    using respond_answers [OF assms(6,7,5,10,11), of action doc s1] m(1) by simp
  with m show ?thesis by (intro exI [of _ doc] exI [of _ rest]) simp
qed

text \<open>A working world for concrete runs: the kernel keeps the set, every message is read as \<open>j\<close>.\<close>

definition working :: "string \<Rightarrow> string \<Rightarrow> json \<Rightarrow> env" where
  "working table nset j = calm\<lparr>
     e_system := (\<lambda>h. if \<exists>m \<in> set_after table nset {} h. last h = System (get_cmd table nset m) then 0 else 256),
     e_parse := (\<lambda>_. Some j),
     e_print := (\<lambda>h. case last h of Json_print (JObj [_, _, (_, JStr v)]) \<Rightarrow> Some v | _ \<Rightarrow> Some ''{}''),
     e_get := (\<lambda>j k. case j of JObj kvs \<Rightarrow> map_of kvs k | _ \<Rightarrow> None)\<rparr>"

lemma set_after_snoc: "set_after table nset S (h @ [c]) = set_step table nset c (set_after table nset S h)"
  by (simp add: set_after_append)

lemma get_cmd_inj:
  assumes "names_fit table nset" "canonical_mac m" "canonical_mac m'" "get_cmd table nset m = get_cmd table nset m'"
  shows "m = m'"
proof -
  have "get_cmd table nset x = ''nft get element '' @ table @ '' '' @ nset @ '' { '' @ x @ '' } >/dev/null 2>&1''"
    if "canonical_mac x" for x
    unfolding command_texts using that assms(1)
    by (intro take_all) (simp add: names_fit_def canonical_mac_def)
  with assms(2-4) show ?thesis by simp
qed

lemma set_after_canonical: "\<forall>m \<in> S. canonical_mac m \<Longrightarrow> m \<in> set_after table nset S h \<Longrightarrow> canonical_mac m"
proof (induction h arbitrary: S)
  case (Cons c h)
  have "\<forall>m \<in> set_step table nset c S. canonical_mac m"
    using Cons.prems(1)
    by (auto simp: set_step_def added_def deleted_def named_mac_def Let_def split: call.splits option.splits if_splits)
  with Cons show ?case by simp
qed simp

lemma working_kernel:
  assumes "names_fit table nset"
  shows "nft_kernel (working table nset j) table nset {}"
proof -
  have "listing (working table nset j) cmd h = []" for cmd h
  proof -
    have "scan_macs (nft_fill [] []) = []" by code_simp
    then show ?thesis by (simp add: listing_def working_def)
  qed
  moreover have "(\<exists>m' \<in> set_after table nset {} (h @ [System (get_cmd table nset m)]).
      get_cmd table nset m = get_cmd table nset m') \<longleftrightarrow> m \<in> set_after table nset {} h"
    if "canonical_mac m" for h m
    using get_cmd_inj [OF assms that] set_after_canonical [of "{}" _ table nset h]
    by (auto simp: set_after_snoc set_step_def)
  ultimately show ?thesis
    by (auto simp: nft_kernel_def working_def nft_rc_def)
qed

definition sample_handler :: np_handler where
  "sample_handler = \<lparr>h_cfg = sample_config, h_mqtt = lz_mqtt sample_leases, h_leases = Some sample_leases\<rparr>"

definition status_request :: json where
  "status_request = JObj [(''mac'', JStr ''AA-BB-CC-DD-EE-FF''), (''req_id'', JStr ''1'')]"

lemma sample_handler_ok: "h_ok sample_handler"
  by (simp add: h_ok_def sample_handler_def sample_leases_def leases_inv_def table_wf_def table_sorted_def)

lemma sample_names: "h_table sample_handler = ''inet netparent''" "h_nset sample_handler = ''blocked_macs''"
    "h_mqtt sample_handler = lz_mqtt sample_leases" "str (device_id (h_cfg sample_handler)) = ''router-1''"
  by (simp_all add: sample_handler_def str_def)


lemma sample_topic: "parse_action ''netparent/router-1/cmd/status'' ''router-1'' = Some ''status''"
  "parse_action ''netparent/router-1/cmd/block'' ''router-1'' = Some ''block''"
  by code_simp+

definition shown_value :: "json \<Rightarrow> string" where
  "shown_value j = (case j of JObj [_, _, (_, JStr v)] \<Rightarrow> v | _ \<Rightarrow> ''{}'')"

lemma working_answers:
  "e_malloc (working table nset j) t" "prints_with (working table nset j) shown_value"
  "e_parse (working table nset j) t = Some j"
  by (auto simp: working_def prints_with_def shown_value_def split: json.splits list.splits prod.splits)

theorem message_end_to_end_witness:
  "published (sy_trace (snd (run_state (np_handle_message
       (working ''inet netparent'' ''blocked_macs'' status_request) ''netparent/router-1/cmd/status'' ''{...}''
       sample_handler)
     (sys_start\<lparr>sy_trace := [Popen_read ''nft add element inet netparent blocked_macs { aa:bb:cc:dd:ee:ff } 2>&1'']\<rparr>))))
   = [(''netparent/router-1/response/1'', ''true'', 1, False)]"
proof -
  let ?E = "working ''inet netparent'' ''blocked_macs'' status_request"
  let ?cmd = "''nft add element inet netparent blocked_macs { aa:bb:cc:dd:ee:ff } 2>&1''"
  let ?s = "sys_start\<lparr>sy_trace := [Popen_read ?cmd]\<rparr>"
  have c: "canonical_mac ''aa:bb:cc:dd:ee:ff''" by code_simp
  have n: "np_mac_normalize ''AA-BB-CC-DD-EE-FF'' = Some ''aa:bb:cc:dd:ee:ff''" by code_simp
  have cmd: "?cmd = nft_cmd (add_args ''inet netparent'' ''blocked_macs'' ''aa:bb:cc:dd:ee:ff'')"
    by (simp add: command_texts)
  have now: "set_step ''inet netparent'' ''blocked_macs'' (Popen_read ?cmd) {} = {''aa:bb:cc:dd:ee:ff''}"
    unfolding cmd by (simp add: set_step_def added_add [OF c])
  have m: "mac_of ?E status_request = Some ''AA-BB-CC-DD-EE-FF''" "req_of ?E status_request = Some ''1''"
    by (simp_all add: mac_of_def req_of_def working_def status_request_def)
  have fit: "names_fit ''inet netparent'' ''blocked_macs''" by (simp add: names_fit_def)
  have live: "mqtt_live (h_mqtt sample_handler)" using sample_leases_live by (simp add: sample_names)
  obtain h' s' where run: "run_state (np_handle_message ?E ''netparent/router-1/cmd/status'' ''{...}'' sample_handler) ?s
      = (h', s')" by force
  have "parse_action ''netparent/router-1/cmd/status'' (str (device_id (h_cfg sample_handler))) = Some ''status''"
    "nft_kernel ?E (h_table sample_handler) (h_nset sample_handler) {}"
    "names_fit (h_table sample_handler) (h_nset sample_handler)"
    using working_kernel [OF fit] fit sample_topic(1) by (simp_all only: sample_names)
  from message_end_to_end [OF this(2,3) sample_handler_ok this(1) working_answers(1,2) live _ working_answers(3)
      m(2) _ run refl]
  have "published (sy_trace s') = published (sy_trace ?s)
      @ [(response_topic (mqtt_id (h_mqtt sample_handler)) ''1'',
          shown_value (abstract_doc ''status'' (mac_of ?E status_request)
             (set_after ''inet netparent'' ''blocked_macs'' {} (sy_trace ?s))), 1, False)]"
    by (auto simp: sample_names updates_def answer_doc_def)
  moreover have "mqtt_id (h_mqtt sample_handler) = ''router-1''"
    using sample_leases_live(3) by (simp add: sample_names)
  ultimately show ?thesis
    using run by (simp add: now m n abstract_doc_def ok_doc_def reply_json_def shown_value_def
        response_topic_def visible_simps)
qed

lemma handler_call_safe:
  assumes "h_ok h" "handler_call h c"
  shows "list_all (safe_nft_command (h_table h) (h_nset h)) (shell_of c)"
proof -
  have q: "nft_query (lz_table l) (lz_nset l) c \<Longrightarrow> h_leases h = Some l \<Longrightarrow> nft_action (h_table h) (h_nset h) c" for l
    using assms(1) nft_query_action by (auto simp: h_ok_def)
  have "shell_of c = [] \<or> nft_action (h_table h) (h_nset h) c"
    using assms(2) q is_log_shell
    by (auto simp: handler_call_def respond_call_def leases_call_def)
  then show ?thesis using nft_action_safe by auto
qed

text \<open>
  C11: no message reaches the shell. Whatever topic and payload arrive, every command line that handling
  them hands to the shell, the republication included, is one of the fixed templates around the configured
  names and an address of 17 hex digits and colons.
\<close>

theorem message_shell_safe:
  assumes "h_ok h"
  shows "issues_only (safe_nft_command (h_table h) (h_nset h)) (np_handle_message E topic payload h)"
  unfolding issues_only_def
  by (rule emits_mono [OF emits_handle_message]) (rule handler_call_safe [OF assms])

theorem message_shell_safe_witness:
  "issues_only (safe_nft_command ''inet netparent'' ''blocked_macs'')
     (np_handle_message calm ''netparent/router-1/cmd/block'' ''{\"mac\": \"$(reboot)\"}'' sample_handler)"
  using message_shell_safe [OF sample_handler_ok] by (simp add: sample_names)

text \<open>
  The handler keeps its configuration and its client, and the invariant of the watcher's tables, under
  every message.
\<close>

lemma message_keeps_invariant:
  assumes "h_ok h"
  shows "h_ok (fst (run_state (np_handle_message E topic payload h) s)) \<and>
    h_cfg (fst (run_state (np_handle_message E topic payload h) s)) = h_cfg h \<and>
    h_mqtt (fst (run_state (np_handle_message E topic payload h) s)) = h_mqtt h"
  by (rule message_cases [of E topic payload h s]) (use assms handle_command_state in simp_all)

text \<open>
  C34: what is dropped. A message on another topic, one for whose payload no copy can be allocated, one without
  a payload for which no empty object can be allocated, and one whose payload is no JSON change nothing, run no
  command and are not answered.
\<close>

theorem message_rejected:
  assumes "parse_action topic (str (device_id (h_cfg h))) = None
    \<or> \<not> e_malloc E (sy_trace s @ [Malloc])
    \<or> payload = [] \<and> \<not> e_malloc E (sy_trace s @ [Malloc, Malloc])
    \<or> payload \<noteq> [] \<and> e_parse E (sy_trace s @ [Malloc, Json_parse (c_str payload)]) = None"
  shows "fst (run_state (np_handle_message E topic payload h) s) = h \<and>
    published (sy_trace (snd (run_state (np_handle_message E topic payload h) s))) = published (sy_trace s) \<and>
    shell (sy_trace (snd (run_state (np_handle_message E topic payload h) s))) = shell (sy_trace s)"
  using assms by (cases "parse_action topic (str (device_id (h_cfg h)))")
    (auto simp: np_handle_message_def visible_simps)

theorem message_rejected_witness:
  "fst (run_state (np_handle_message calm ''netparent/router-2/cmd/block'' ''{}'' sample_handler) sys_start)
     = sample_handler"
proof -
  have "parse_action ''netparent/router-2/cmd/block'' ''router-1'' = None" by code_simp
  with message_rejected [of "''netparent/router-2/cmd/block''" sample_handler calm sys_start "''{}''"]
  show ?thesis by (simp add: sample_names)
qed

text \<open>
  C35: who is not answered. With a working kernel, memory and parser, a message on a command topic without a
  request id, or with the empty one unless it is \<open>list\<close>, is carried out all the same: the set ends as its
  command says. But nothing it publishes goes to a response topic: there is nothing at all unless a table was
  updated, and then only what the watcher sends.
\<close>

theorem silent_without_request_id:
  assumes "nft_kernel E (h_table h) (h_nset h) S" "names_fit (h_table h) (h_nset h)" "h_ok h"
    and "parse_action topic (str (device_id (h_cfg h))) = Some action" "\<And>t. e_malloc E t" "payload \<noteq> []"
    and "\<And>t. e_parse E (t @ [Json_parse (c_str payload)]) = Some j"
    and "run_state (np_handle_message E topic payload h) s = (h', s')"
    and now: "now = set_after (h_table h) (h_nset h) S (sy_trace s)"
    and silent: "req_of E j = None \<or> req_of E j = Some [] \<and> action \<noteq> ''list''"
  shows "\<exists>rest. published (sy_trace s') = published (sy_trace s) @ rest
      \<and> watcher_only (mqtt_id (h_mqtt h)) rest
      \<and> (\<not> updates action (mac_of E j) \<longrightarrow> rest = [] \<and> h' = h)
      \<and> set_after (h_table h) (h_nset h) S (sy_trace s') = abstract_set action (mac_of E j) now"
proof -
  obtain doc s1 s2 rest where m: "run_state (respond E h action (req_of E j) doc) s1 = ((), s2)"
    "answer_doc action (mac_of E j) now doc" "published (sy_trace s1) = published (sy_trace s)"
    "published (sy_trace s') = published (sy_trace s2) @ rest" "watcher_only (mqtt_id (h_mqtt h)) rest"
    "\<not> updates action (mac_of E j) \<longrightarrow> rest = [] \<and> h' = h"
    "set_after (h_table h) (h_nset h) S (sy_trace s') = abstract_set action (mac_of E j) now"
    by (rule handled_message [OF assms(1-9)])
  have "respond E h action (req_of E j) doc = ret ()" using silent by (auto simp: respond_def)
  with m(1) have "s2 = s1" by simp
  with m show ?thesis by (intro exI [of _ rest]) simp
qed

definition silent_block :: json where
  "silent_block = JObj [(''mac'', JStr ''AA-BB-CC-DD-EE-FF'')]"

theorem silent_without_request_id_witness:
  "set_after ''inet netparent'' ''blocked_macs'' {} (sy_trace (snd (run_state (np_handle_message
       (working ''inet netparent'' ''blocked_macs'' silent_block) ''netparent/router-1/cmd/block'' ''{...}''
       sample_handler) sys_start))) = {''aa:bb:cc:dd:ee:ff''}"
proof -
  let ?E = "working ''inet netparent'' ''blocked_macs'' silent_block"
  have n: "np_mac_normalize ''AA-BB-CC-DD-EE-FF'' = Some ''aa:bb:cc:dd:ee:ff''" by code_simp
  have m: "mac_of ?E silent_block = Some ''AA-BB-CC-DD-EE-FF''" "req_of ?E silent_block = None"
    by (simp_all add: mac_of_def req_of_def working_def silent_block_def)
  have fit: "names_fit ''inet netparent'' ''blocked_macs''" by (simp add: names_fit_def)
  obtain h' s' where run: "run_state (np_handle_message ?E ''netparent/router-1/cmd/block'' ''{...}'' sample_handler)
      sys_start = (h', s')" by force
  have "parse_action ''netparent/router-1/cmd/block'' (str (device_id (h_cfg sample_handler))) = Some ''block''"
    "nft_kernel ?E (h_table sample_handler) (h_nset sample_handler) {}"
    "names_fit (h_table sample_handler) (h_nset sample_handler)"
    using working_kernel [OF fit] fit sample_topic(2) by (simp_all only: sample_names)
  from silent_without_request_id [OF this(2,3) sample_handler_ok this(1) working_answers(1) _ working_answers(3)
      run refl disjI1 [OF m(2)]]
  have "set_after (h_table sample_handler) (h_nset sample_handler) {} (sy_trace s') = {''aa:bb:cc:dd:ee:ff''}"
    by (auto simp: m n abstract_set_def sys_start_def)
  with run show ?thesis by (simp add: sample_names)
qed

text \<open>
  C33: what \<open>list\<close> answers. When nft's listing can be read, the reply has the addresses found in its first
  4095 bytes, in order, whatever the status nft ends with; when it cannot even be started, the reply has an
  empty list. In every case the reply says \<open>ok\<close>: \<open>list\<close> never reports an error.
\<close>

theorem list_reply:
  assumes "prints_with E render" "mqtt_live (h_mqtt h)" "\<And>t. e_malloc E t"
  shows "published (sy_trace (snd (run_state (handle_command E h ''list'' mac (Some r)) s))) = published (sy_trace s)
    @ [(response_topic (mqtt_id (h_mqtt h)) r,
        render (JObj [(''ok'', JBool True), (''action'', JStr ''list''), (''blocked'', JArr (List.map JStr
          (case e_popen E (sy_trace s @ [Popen_read (list_cmd (h_table h) (h_nset h))]) of
             None \<Rightarrow> []
           | Some (out, status) \<Rightarrow> scan_macs (nft_fill [] out))))]), 1, False)]"
proof -
  let ?cmd = "list_cmd (h_table h) (h_nset h)"
  let ?s1 = "s\<lparr>sy_trace := sy_trace s @ [Popen_read ?cmd]\<rparr>"
  have "published (sy_trace (snd (run_state (send_doc E h (Some r) doc) ?s1))) = published (sy_trace s)
      @ [(response_topic (mqtt_id (h_mqtt h)) r, render doc, 1, False)]" for doc
    using assms [unfolded prints_with_def]
    by (simp add: send_doc_def case_prod_beta published_response visible_simps del: append_assoc)
  moreover have "list_doc (listing E ?cmd (sy_trace s)) = JObj [(''ok'', JBool True), (''action'', JStr ''list''),
      (''blocked'', JArr (List.map JStr (case e_popen E (sy_trace s @ [Popen_read ?cmd]) of
         None \<Rightarrow> [] | Some (out, status) \<Rightarrow> scan_macs (nft_fill [] out))))]"
    by (simp add: list_doc_def listing_def)
  ultimately show ?thesis
    by (simp add: handle_command_decomposed respond_def case_prod_beta run_command_list)
qed

theorem list_reply_witness:
  "published (sy_trace (snd (run_state (handle_command (one_each\<lparr>e_popen := (\<lambda>_. None)\<rparr>) sample_handler ''list''
     None (Some ''9'')) sys_start))) = [(''netparent/router-1/response/9'', ''{}'', 1, False)]"
proof -
  let ?E = "one_each\<lparr>e_popen := (\<lambda>_. None)\<rparr>"
  have "mqtt_live (h_mqtt sample_handler)" "mqtt_id (h_mqtt sample_handler) = ''router-1''"
    using sample_leases_live by (simp_all add: sample_names)
  moreover have "prints_with ?E (\<lambda>_. ''{}'')" by (simp add: prints_with_def one_each_def)
  ultimately show ?thesis
    using list_reply [of ?E "\<lambda>_. ''{}''" sample_handler None "''9''" sys_start]
    by (simp add: one_each_def response_topic_def visible_simps sys_start_def)
qed

lemma set_after_during:
  assumes "emits (\<lambda>c. \<forall>S. set_step table nset c S = S) m" "run_state m s = (a, s')"
    and "sy_trace s' = h @ u" "length (sy_trace s) \<le> length h"
  shows "set_after table nset S h = set_after table nset S (sy_trace s)"
proof -
  obtain t where t: "s' = s\<lparr>sy_trace := sy_trace s @ t\<rparr>" "list_all (\<lambda>c. \<forall>S. set_step table nset c S = S) t"
    by (rule emitsE [OF assms(1,2)])
  then have e: "sy_trace s @ t = h @ u" using assms(3) by simp
  have "h = sy_trace s @ drop (length (sy_trace s)) h"
    using arg_cong [where f = "take (length (sy_trace s))", OF e] assms(4)
    by (metis append_take_drop_id append_eq_conv_conj take_append diff_is_0_eq' take0 append_Nil2 take_0)
  then obtain v where h: "h = sy_trace s @ v" by blast
  with e have "t = v @ u" by simp
  with t(2) h show ?thesis by (simp add: set_after_append set_after_quiet)
qed

text \<open>
  C8: the flags tell the truth. With a working kernel, and while the lease file and the listing read during
  the rebuild name at most 256 addresses,
  a device of the rebuilt table is marked blocked exactly when its address is in the set, whatever part of
  the listing the 4095 bytes cut off.
\<close>

theorem snapshot_flags:
  assumes "nft_kernel E (lz_table l) (lz_nset l) S" "run_state (rebuild E l) s = (l', s')"
    and fits: "\<And>h u. sy_trace s' = h @ [Popen_read (list_cmd (lz_table l) (lz_nset l))] @ u \<Longrightarrow>
      card (set (lease_macs E l s) \<union> set (listing E (list_cmd (lz_table l) (lz_nset l)) h)) \<le> MAX_DEVICES"
  shows "list_all (\<lambda>d. d_blocked d =
      (if d_mac d \<in> set_after (lz_table l) (lz_nset l) S (sy_trace s) then 1 else 0)) (lz_list l')"
proof -
  let ?after = "set_after (lz_table l) (lz_nset l) S"
  obtain ds ms devs where r: "rebuilt E l s ds ms devs s'" "l' = l\<lparr>lz_list := sort_key d_mac devs\<rparr>"
    by (rule run_rebuild [OF assms(2)])
  obtain h u where ms: "sy_trace s' = h @ [Popen_read (list_cmd (lz_table l) (lz_nset l))] @ u"
    "length (sy_trace s) \<le> length h" "ms = listing E (list_cmd (lz_table l) (lz_nset l)) h"
    using r(1) by (auto simp: rebuilt_def)
  have fit: "card (set (lease_macs E l s) \<union> set ms) \<le> MAX_DEVICES" using fits [OF ms(1)] ms(3) by simp
  have quiet: "emits (\<lambda>c. \<forall>S. set_step (lz_table l) (lz_nset l) c S = S) (rebuild E l)"
    by (rule emits_mono [OF emits_rebuild]) (simp add: leases_quiet)
  have "d_blocked d = (if d_mac d \<in> ?after (sy_trace s) then 1 else 0)" if d: "d \<in> set (sort_key d_mac devs)" for d
  proof (cases "d_mac d \<in> set ms")
    case True
    then have "d_mac d \<in> ?after h" using ms(3) assms(1) by (auto simp: nft_kernel_def)
    with set_after_during [OF quiet assms(2) ms(1,2)] rebuilt_device(2) [OF r(1) fit d True]
    show ?thesis by simp
  next
    case False
    obtain rc h u where h: "sy_trace s' = h @ [System (get_cmd (lz_table l) (lz_nset l) (d_mac d))] @ u"
      "length (sy_trace s) \<le> length h" "e_system E (h @ [System (get_cmd (lz_table l) (lz_nset l) (d_mac d))]) = rc"
      "d_blocked d = (if rc = 0 then 1 else 0)"
      using rebuilt_device(3) [OF r(1) fit d False] by (auto simp: asked_def)
    have "canonical_mac (d_mac d)"
      using rebuilt_table(1) [OF r(1)] d by (auto simp: table_wf_def list_all_iff dev_wf_def)
    then have "rc = (if d_mac d \<in> ?after h then 0 else 256)" using assms(1) h(3) by (simp add: nft_kernel_def)
    with set_after_during [OF quiet assms(2) h(1,2)] h(4) show ?thesis by simp
  qed
  with r(2) show ?thesis by (simp add: list_all_iff)
qed

theorem snapshot_flags_witness:
  "list_all (\<lambda>d. d_blocked d = (if d_mac d \<in> {''aa:bb:cc:dd:ee:ff''} then 1 else 0))
     (lz_list (fst (run_state
        (rebuild (working ''inet netparent'' ''blocked_macs'' JNull
            \<lparr>e_fopen := (\<lambda>_. Some (concat (List.map render_lease [sample_lease])))\<rparr>) sample_leases)
        (sys_start\<lparr>sy_trace := [Popen_read (nft_cmd (add_args ''inet netparent'' ''blocked_macs'' ''aa:bb:cc:dd:ee:ff''))]\<rparr>))))"
proof -
  let ?T = "''inet netparent''" and ?N = "''blocked_macs''"
  let ?E = "working ?T ?N JNull\<lparr>e_fopen := (\<lambda>_. Some (concat (List.map render_lease [sample_lease])))\<rparr>"
  let ?s = "sys_start\<lparr>sy_trace := [Popen_read (nft_cmd (add_args ?T ?N ''aa:bb:cc:dd:ee:ff''))]\<rparr>"
  have names: "lz_table sample_leases = ?T" "lz_nset sample_leases = ?N"
    by (simp_all add: sample_leases_def str_def)
  have "names_fit ?T ?N" by (simp add: names_fit_def)
  from working_kernel [OF this, of JNull] have k: "nft_kernel ?E ?T ?N {}"
    by (simp add: nft_kernel_def listing_def)
  have "listing ?E cmd h = []" for cmd h
  proof -
    have "scan_macs (nft_fill [] []) = []" by code_simp
    then show ?thesis by (simp add: listing_def working_def)
  qed
  moreover have "lease_macs ?E sample_leases ?s = [''aa:bb:cc:dd:ee:ff'']"
    using lease_lines_render [of "[sample_lease]"] sample_lease_ok(1)
    by (simp add: lease_macs_def file_lines_def List.map_filter_def lease_mac_def lease_dev_render
        dev_of_lease_def sample_lease_def)
  ultimately have fits: "card (set (lease_macs ?E sample_leases ?s) \<union> set (listing ?E cmd h)) \<le> MAX_DEVICES" for cmd h
    by (simp add: MAX_DEVICES_def)
  have "canonical_mac ''aa:bb:cc:dd:ee:ff''" by code_simp
  then have "set_after ?T ?N {} (sy_trace ?s) = {''aa:bb:cc:dd:ee:ff''}"
    by (simp add: set_step_def added_add)
  moreover have k': "nft_kernel ?E (lz_table sample_leases) (lz_nset sample_leases) {}"
    using k by (simp only: names)
  ultimately show ?thesis
    using snapshot_flags [OF k' prod.collapse [symmetric] fits] by (simp only: names)
qed

end
