(* ===== verification/Daemon.thy ===== *)
theory Daemon
  imports Handler
begin

text \<open>
  The program \<open>src/src/main.c\<close>: the command line, the start-up in its order, the network loop with the
  message callback and the tick, and the shutdown. The state behind the user pointers of the client is the
  handler, which owns the watcher. \<open>main\<close> is a function of the environment and the start state to the
  way the process ends, \<open>None\<close> when the loop never ends.
\<close>

text \<open>The process returns an exit code, or \<open>abort\<close> ended it.\<close>

datatype process_end = Exit int | Killed

section \<open>The command line\<close>

definition usage :: "string \<Rightarrow> unit np" where
  "usage argv0 = tell (Stderr (format (
     ''Usage: %s [-f]'' @ [NL] @
     ''  -f    foreground mode, log to stderr instead of syslog'' @ [NL] @
     ''  -h    show this help'' @ [NL]) [argv0]))"

text \<open>The loop over the options \<open>getopt\<close> delivers: an exit code, or the foreground flag.\<close>

fun read_options :: "string \<Rightarrow> string \<Rightarrow> bool \<Rightarrow> (int + bool) np" where
  "read_options argv0 [] foreground = ret (Inr foreground)"
| "read_options argv0 (c # cs) foreground =
     (if c = CHR ''f'' then read_options argv0 cs True
      else if c = CHR ''h'' then do { usage argv0; ret (Inl 0) }
      else do { usage argv0; ret (Inl 2) })"


section \<open>Start-up, run and shutdown\<close>

definition on_message_trampoline :: "env \<Rightarrow> string \<Rightarrow> string \<Rightarrow> np_handler \<Rightarrow> np_handler np" where
  "on_message_trampoline E topic payload user = np_handle_message E topic payload user"

text \<open>The tick, \<open>np_leases_poll\<close> on the watcher the handler shares.\<close>

definition tick :: "env \<Rightarrow> np_handler \<Rightarrow> np_handler np" where
  "tick E h = do { l \<leftarrow> np_leases_poll E (h_leases h); ret (h\<lparr>h_leases := l\<rparr>) }"

text \<open>\<open>main\<close> up to \<open>np_mqtt_run\<close>: an exit code, or the running daemon.\<close>

definition daemon_setup :: "env \<Rightarrow> string list \<Rightarrow> (process_end + np_handler np_client \<times> np_handler) np" where
  "daemon_setup E argv = do {
     opts \<leftarrow> ask (e_getopt E) (Getopt argv);
     o_res \<leftarrow> read_options (hd (argv @ [[]])) opts False;
     case o_res of
       Inl code \<Rightarrow> ret (Inl (Exit code))
     | Inr foreground \<Rightarrow> do {
         r \<leftarrow> np_config_load E;
         case r of
           None \<Rightarrow> ret (Inl Killed)
         | Some (rc, cfg) \<Rightarrow>
         if rc \<noteq> 0
         then do { tell (Stderr (''failed to load configuration'' @ [NL])); ret (Inl (Exit 1)) }
         else do {
           np_log_init (Some ''netparent'') (if foreground then 0 else if log_syslog cfg then 1 else 0)
             (log_level cfg);
           LOG_INFO E ''netparent starting (device_id=%s, broker=%s:%d)''
             [str (device_id cfg), str (broker_host cfg), show_int (broker_port cfg)];
           n \<leftarrow> np_nft_ensure E (str (nft_table cfg)) (str (nft_set cfg));
           if n \<noteq> 0
           then do { LOG_ERR E ''nftables setup failed; refusing to start'' []; ret (Inl (Exit 1)) }
           else do {
             let handler = \<lparr>h_cfg = cfg, h_mqtt = None, h_leases = None\<rparr>;
             mq \<leftarrow> np_mqtt_create E cfg (Some (on_message_trampoline E));
             case mq of
               None \<Rightarrow> do { LOG_ERR E ''failed to create MQTT client'' []; ret (Inl (Exit 1)) }
             | Some m \<Rightarrow> do {
                 let handler = handler\<lparr>h_mqtt := Some (np_mqtt.truncate m)\<rparr>;
                 leases \<leftarrow> np_leases_create E (Some ''/tmp/dhcp.leases'') cfg (Some (np_mqtt.truncate m));
                 (if leases = None
                  then LOG_WARN E ''could not create leases watcher; continuing without it'' []
                  else ret ());
                 let handler = handler\<lparr>h_leases := leases\<rparr>;
                 let m = the (np_mqtt_set_tick (Some m) (Some (tick E)));
                 tell Sigaction;
                 ret (Inr (m, handler)) } } } } }"

text \<open>The watcher and the configuration as the shutdown leaves them.\<close>

definition daemon_teardown ::
  "env \<Rightarrow> np_handler np_client \<Rightarrow> np_handler \<Rightarrow> (np_leases option \<times> np_config option) np" where
  "daemon_teardown E m h = do {
     LOG_INFO E ''netparent shutting down'' [];
     let leases = np_leases_destroy (h_leases h);
     np_mqtt_destroy (Some m);
     let cfg = np_config_free (Some (h_cfg h));
     np_log_close;
     ret (leases, cfg) }"

definition np_main :: "env \<Rightarrow> string list \<Rightarrow> sys \<Rightarrow> (process_end \<times> sys) option" where
  "np_main E argv s = (case run_state (daemon_setup E argv) s of
      (Inl e, s1) \<Rightarrow> Some (e, s1)
    | (Inr (m, h), s1) \<Rightarrow> (case np_mqtt_run E (Some m) h s1 of
        None \<Rightarrow> None
      | Some ((rc, h'), s2) \<Rightarrow>
          let (_, s3) = run_state (daemon_teardown E m h') s2 in Some (Exit (if rc = 0 then 0 else 1), s3)))"


section \<open>What start-up establishes\<close>

text \<open>The client and the handler as \<open>main\<close> hands them to the loop.\<close>

definition main_client :: "env \<Rightarrow> np_config \<Rightarrow> np_handler np_client" where
  "main_client E cfg = (new_client cfg (Some (on_message_trampoline E)))\<lparr>nc_tick_cb := Some (tick E)\<rparr>"

definition main_mqtt :: "np_config \<Rightarrow> np_mqtt" where
  "main_mqtt cfg = \<lparr>nm_mosq = True, nm_cfg = cfg,
     nm_status_topic = Some (status_topic (str (device_id cfg))),
     nm_cmd_filter = Some (cmd_filter (str (device_id cfg)))\<rparr>"

lemma truncate_new: "np_mqtt.truncate (new_client cfg cb) = main_mqtt cfg"
  by (simp add: new_client_def main_mqtt_def np_mqtt.defs)

definition main_handler :: "np_config \<Rightarrow> np_handler \<Rightarrow> bool" where
  "main_handler cfg h \<longleftrightarrow> h_ok h \<and> h_cfg h = cfg \<and> h_mqtt h = Some (main_mqtt cfg)"

lemma create_leases_cases:
  assumes "run_state (np_leases_create E path cfg mqtt) s = (l, s')"
  shows "l = None \<or> (\<exists>z. l = Some z \<and> lz_cfg z = cfg \<and> lz_mqtt z = mqtt \<and> leases_inv z)"
    and "\<exists>t. sy_trace s' = sy_trace s @ t \<and> list_all (\<lambda>c. c = Malloc) t"
  using assms by (auto simp: np_leases_create_def leases_inv_def table_wf_def table_sorted_def split: if_splits)

lemma read_options_codes:
  "run_state (read_options argv0 opts fg) s = (Inl code, s') \<Longrightarrow>
     (code = 0 \<or> code = 2) \<and> (code = 2 \<longleftrightarrow> hd (dropWhile (\<lambda>c. c = CHR ''f'') opts) \<noteq> CHR ''h'') \<and>
     visible (sy_trace s') = visible (sy_trace s)"
  by (induction opts arbitrary: fg) (auto simp: usage_def visible_simps split: if_splits)


text \<open>The command lines of the set-up, and those of the whole program.\<close>

definition setup_command :: "string \<Rightarrow> string \<Rightarrow> string \<Rightarrow> bool" where
  "setup_command table nset cmd \<longleftrightarrow> cmd = ''nft -f - 2>&1'' \<or> cmd = nft_cmd (flush_args table) \<or>
     cmd = nft_cmd (rule_args ''saddr'' table nset) \<or> cmd = nft_cmd (rule_args ''daddr'' table nset)"

definition program_command :: "np_config \<Rightarrow> string \<Rightarrow> bool" where
  "program_command cfg cmd \<longleftrightarrow> setup_command (str (nft_table cfg)) (str (nft_set cfg)) cmd \<or>
     safe_nft_command (str (nft_table cfg)) (str (nft_set cfg)) cmd"

text \<open>The part of \<open>main\<close> behind a loaded configuration.\<close>

definition setup_tail :: "env \<Rightarrow> np_config \<Rightarrow> (process_end + np_handler np_client \<times> np_handler) np" where
  "setup_tail E cfg = do {
     n \<leftarrow> np_nft_ensure E (str (nft_table cfg)) (str (nft_set cfg));
     if n \<noteq> 0
     then do { LOG_ERR E ''nftables setup failed; refusing to start'' []; ret (Inl (Exit 1)) }
     else do {
       mq \<leftarrow> np_mqtt_create E cfg (Some (on_message_trampoline E));
       case mq of
         None \<Rightarrow> do { LOG_ERR E ''failed to create MQTT client'' []; ret (Inl (Exit 1)) }
       | Some m \<Rightarrow> do {
           leases \<leftarrow> np_leases_create E (Some ''/tmp/dhcp.leases'') cfg (Some (np_mqtt.truncate m));
           (if leases = None
            then LOG_WARN E ''could not create leases watcher; continuing without it'' []
            else ret ());
           tell Sigaction;
           ret (Inr (m\<lparr>nc_tick_cb := Some (tick E)\<rparr>,
             \<lparr>h_cfg = cfg, h_mqtt = Some (np_mqtt.truncate m), h_leases = leases\<rparr>)) } } }"

definition setup_log :: "bool \<Rightarrow> np_config \<Rightarrow> env \<Rightarrow> unit np" where
  "setup_log foreground cfg E = do {
     np_log_init (Some ''netparent'') (if foreground then 0 else if log_syslog cfg then 1 else 0) (log_level cfg);
     LOG_INFO E ''netparent starting (device_id=%s, broker=%s:%d)''
       [str (device_id cfg), str (broker_host cfg), show_int (broker_port cfg)] }"

lemma daemon_setup_steps:
  "daemon_setup E argv = do {
     opts \<leftarrow> ask (e_getopt E) (Getopt argv);
     o_res \<leftarrow> read_options (hd (argv @ [[]])) opts False;
     case o_res of
       Inl code \<Rightarrow> ret (Inl (Exit code))
     | Inr foreground \<Rightarrow> do {
         r \<leftarrow> np_config_load E;
         case r of
           None \<Rightarrow> ret (Inl Killed)
         | Some (rc, cfg) \<Rightarrow>
             if rc \<noteq> 0
             then do { tell (Stderr (''failed to load configuration'' @ [NL])); ret (Inl (Exit 1)) }
             else do { setup_log foreground cfg E; setup_tail E cfg } } }"
  by (simp add: daemon_setup_def setup_tail_def setup_log_def Let_def np_mqtt_set_tick_def
      cong: if_cong option.case_cong sum.case_cong prod.case_cong)

lemma tail_ready:
  assumes "run_state (setup_tail E cfg) s = (Inr (m, h), s')"
  shows "m = main_client E cfg \<and> main_handler cfg h \<and>
    answered E (sy_trace s') (nft_cmd (rule_args ''saddr'' (str (nft_table cfg)) (str (nft_set cfg)))) 0 \<and>
    answered E (sy_trace s') (nft_cmd (rule_args ''daddr'' (str (nft_table cfg)) (str (nft_set cfg)))) 0 \<and>
    (tls_enabled cfg \<longrightarrow>
       accepted E (Mosq_tls_set (tls_ca_file cfg) (tls_cert_file cfg) (tls_key_file cfg)) (sy_trace s'))"
proof -
  let ?T = "str (nft_table cfg)" and ?N = "str (nft_set cfg)"
  obtain n s1 where r1: "run_state (np_nft_ensure E ?T ?N) s = (n, s1)" by force
  have n: "n = 0" using assms r1 by (auto simp: setup_tail_def split: if_splits)
  obtain mq s2 where r2: "run_state (np_mqtt_create E cfg (Some (on_message_trampoline E))) s1 = (mq, s2)" by force
  obtain m0 where m0: "mq = Some m0" using assms r1 r2 n by (cases mq) (auto simp: setup_tail_def)
  note create = create_SomeD [OF r2 [unfolded m0]]
  obtain t2 where t2: "s2 = s1\<lparr>sy_trace := sy_trace s1 @ t2\<rparr>" by (rule emitsE [OF emits_create r2])
  obtain l s3 where r3: "run_state (np_leases_create E (Some ''/tmp/dhcp.leases'') cfg (Some (np_mqtt.truncate m0))) s2 = (l, s3)"
    by force
  obtain t3 where t3: "sy_trace s3 = sy_trace s2 @ t3" using create_leases_cases(2) [OF r3] by blast
  note l = create_leases_cases(1) [OF r3]
  have fin: "m = m0\<lparr>nc_tick_cb := Some (tick E)\<rparr>" "h = \<lparr>h_cfg = cfg, h_mqtt = Some (np_mqtt.truncate m0), h_leases = l\<rparr>"
    "\<exists>t. sy_trace s' = sy_trace s3 @ t"
    using assms r1 r2 r3 n m0 by (auto simp: setup_tail_def split: if_splits)
  then obtain t where t: "sy_trace s' = sy_trace s1 @ (t2 @ t3 @ t)" "sy_trace s' = sy_trace s2 @ (t3 @ t)"
    using t2 t3 by auto
  have "answered E (sy_trace s1) (nft_cmd (rule_args ''saddr'' ?T ?N)) 0 \<and>
      answered E (sy_trace s1) (nft_cmd (rule_args ''daddr'' ?T ?N)) 0"
    using ensure_ok [OF r1] n by blast
  then have "answered E (sy_trace s') (nft_cmd (rule_args ''saddr'' ?T ?N)) 0 \<and>
      answered E (sy_trace s') (nft_cmd (rule_args ''daddr'' ?T ?N)) 0"
    unfolding t(1) using answered_append by blast
  moreover have "m0 = new_client cfg (Some (on_message_trampoline E))" using create by blast
  moreover have "tls_enabled cfg \<longrightarrow> accepted E (tls_call cfg) (sy_trace s2)"
    using create by (simp add: tls_call_def)
  then have "tls_enabled cfg \<longrightarrow> accepted E (tls_call cfg) (sy_trace s')"
    unfolding t(2) using accepted_append by blast
  ultimately show ?thesis
    using fin(1,2) l by (auto simp: main_client_def main_handler_def h_ok_def truncate_new tls_call_def)
qed


lemma setup_ready:
  assumes "run_state (daemon_setup E argv) s = (Inr (m, h), s')"
  obtains cfg where "config_complete cfg" "m = main_client E cfg" "main_handler cfg h"
    "answered E (sy_trace s') (nft_cmd (rule_args ''saddr'' (str (nft_table cfg)) (str (nft_set cfg)))) 0"
    "answered E (sy_trace s') (nft_cmd (rule_args ''daddr'' (str (nft_table cfg)) (str (nft_set cfg)))) 0"
    "tls_enabled cfg \<longrightarrow>
       accepted E (Mosq_tls_set (tls_ca_file cfg) (tls_cert_file cfg) (tls_key_file cfg)) (sy_trace s')"
proof -
  let ?s1 = "s\<lparr>sy_trace := sy_trace s @ [Getopt argv]\<rparr>"
  obtain o_res s2 where r1: "run_state (read_options (hd (argv @ [[]])) (e_getopt E (sy_trace s @ [Getopt argv])) False) ?s1
      = (o_res, s2)" by force
  obtain fg where o_res: "o_res = Inr fg" using assms r1 by (cases o_res) (auto simp: daemon_setup_steps)
  obtain r s3 where r2: "run_state (np_config_load E) s2 = (r, s3)" by force
  obtain n cfg where r: "r = Some (n, cfg)" and n: "n = 0"
    using assms r1 r2 o_res by (cases r) (auto simp: daemon_setup_steps split: if_splits)
  obtain s4 where r3: "run_state (setup_log fg cfg E) s3 = ((), s4)" by (metis surj_pair old.unit.exhaust)
  have "run_state (setup_tail E cfg) s4 = (Inr (m, h), s')"
    using assms r1 r2 r3 o_res r n by (simp add: daemon_setup_steps)
  moreover have "config_complete cfg" using load_result [of E s2] r2 r n load_outcome_complete by (auto simp: owns_def)
  ultimately show thesis using tail_ready that by blast
qed

lemma emits_read_options: "(\<And>c. is_log c \<Longrightarrow> P c) \<Longrightarrow> emits P (read_options argv0 opts fg)"
  by (induction opts arbitrary: fg) (auto simp: usage_def intro!: emits_rules)

lemma tail_exit_codes: "run_state (setup_tail E cfg) s = (Inl e, s') \<Longrightarrow> e = Exit 1"
  by (auto simp: setup_tail_def case_prod_beta split: if_splits option.splits)

lemma setup_exit_codes:
  assumes "run_state (daemon_setup E argv) s = (Inl e, s')"
  shows "e = Exit 0 \<or> e = Exit 1 \<or> e = Exit 2 \<or> e = Killed \<and> killed E (sy_trace s) (sy_trace s')"
proof -
  let ?s1 = "s\<lparr>sy_trace := sy_trace s @ [Getopt argv]\<rparr>"
  obtain o_res s2 where r1: "run_state (read_options (hd (argv @ [[]])) (e_getopt E (sy_trace s @ [Getopt argv])) False) ?s1
      = (o_res, s2)" by force
  obtain t where t: "sy_trace s2 = sy_trace s @ Getopt argv # t" "Abort \<notin> set t"
    using emits_trace [OF emits_read_options [of "\<lambda>c. c \<noteq> Abort"], of "hd (argv @ [[]])"
        "e_getopt E (sy_trace s @ [Getopt argv])" False ?s1] r1
    by (auto simp: list_all_iff is_log_abort)
  show ?thesis
  proof (cases o_res)
    case (Inl c)
    with assms r1 read_options_codes [of _ _ _ ?s1 c s2] show ?thesis by (auto simp: daemon_setup_steps)
  next
    case (Inr fg)
    obtain r s3 where r2: "run_state (np_config_load E) s2 = (r, s3)" by force
    show ?thesis
    proof (rule load_cases [OF r2])
      assume "r = None" "killed E (sy_trace s2) (sy_trace s3)"
      with assms r1 r2 Inr t killed_later [of E "sy_trace s" "Getopt argv # t" "sy_trace s3"]
      show ?thesis by (simp add: daemon_setup_steps)
    next
      fix n cfg
      assume "r = Some (n, cfg)"
      with assms r1 r2 Inr tail_exit_codes [of E cfg] show ?thesis
        by (auto simp: daemon_setup_steps case_prod_beta split: if_splits)
    qed
  qed
qed


section \<open>Confinement with an invariant\<close>

text \<open>
  The callbacks are confined only while the state behind the user pointer satisfies its invariant, so the
  two are carried through the network loop together.
\<close>

definition keeps :: "('u \<Rightarrow> bool) \<Rightarrow> (call \<Rightarrow> bool) \<Rightarrow> 'u np \<Rightarrow> bool" where
  "keeps Q P m \<longleftrightarrow> emits P m \<and> (\<forall>s. Q (fst (run_state m s)))"

lemma keeps_return: "Q u \<Longrightarrow> keeps Q P (ret u)"
  by (simp add: keeps_def emits_return)

lemma keeps_after: "emits P m \<Longrightarrow> (\<And>a. keeps Q P (f a)) \<Longrightarrow> keeps Q P (do { a \<leftarrow> m; f a })"
  by (simp add: keeps_def emits_bind case_prod_beta)

lemma keeps_bind: "keeps R P m \<Longrightarrow> (\<And>u. R u \<Longrightarrow> keeps Q P (f u)) \<Longrightarrow> keeps Q P (do { u \<leftarrow> m; f u })"
  by (auto simp: keeps_def case_prod_beta intro!: emits_bindS)

lemma keeps_fold:
  "(\<And>x u. Q u \<Longrightarrow> keeps Q P (f x u)) \<Longrightarrow> Q u \<Longrightarrow> keeps Q P (fold_np f xs u)"
  by (induction xs arbitrary: u) (auto intro: keeps_return keeps_bind)

text \<open>
  The interface between the client and its user: the outside calls of the client itself are allowed, and
  the callbacks keep the invariant.
\<close>

locale confined_client =
  fixes E :: env and m :: "'u np_client" and Q :: "'u \<Rightarrow> bool" and P :: "call \<Rightarrow> bool"
  assumes logs: "is_log c \<Longrightarrow> P c"
    and own_calls: "P (Mosq_subscribe (str (nm_cmd_filter m)) 1)" "P (Mosq_publish (str (nm_status_topic m)) p 1 True)"
      "P (Mosq_loop n)" "P Mosq_reconnect_async" "P Signal_window" "P Mosq_disconnect"
    and on_message_cb: "nc_on_message m = Some cb \<Longrightarrow> Q u \<Longrightarrow> keeps Q P (cb t q u)"
    and tick_cb: "nc_tick_cb m = Some tk \<Longrightarrow> Q u \<Longrightarrow> keeps Q P (tk u)"
begin

lemma keeps_dispatch: "Q u \<Longrightarrow> keeps Q P (dispatch E m ev u)"
proof (cases ev)
  case (Ev_message msg)
  moreover assume q: "Q u"
  have user: "keeps Q P (case nc_on_message m of None \<Rightarrow> ret u | Some cb \<Rightarrow> cb topic payload u)" for topic payload
    using q on_message_cb by (cases "nc_on_message m") (auto intro: keeps_return)
  have "keeps Q P (do { LOG_DBG E fmt args;
      case nc_on_message m of None \<Rightarrow> ret u | Some cb \<Rightarrow> cb topic payload u })" for fmt args topic payload
    by (rule keeps_after [OF emits_LOG(4) user]) (rule logs)
  ultimately show ?thesis
    using q by (auto simp: on_message_def keeps_return split: option.splits)
qed (auto intro!: keeps_after keeps_return emits_on_connect emits_on_disconnect emits_on_log logs own_calls)

lemma keeps_mosq_loop: "Q u \<Longrightarrow> keeps (\<lambda>r. Q (snd r)) P (mosq_loop E n m u)"
  unfolding mosq_loop_def
  by (intro keeps_after emits_ask own_calls keeps_bind [OF keeps_fold [of Q]] keeps_dispatch keeps_return) simp_all

lemma keeps_run_iteration: "Q u \<Longrightarrow> keeps Q P (run_iteration E m u)"
  unfolding run_iteration_def
  by (intro keeps_bind [OF keeps_mosq_loop] keeps_after emits_rules)
    (auto intro!: keeps_return tick_cb logs own_calls split: option.splits)

end


section \<open>The running daemon\<close>

text \<open>The topics of a device, and what the running daemon may do to the world.\<close>

definition own_topic :: "string \<Rightarrow> string \<Rightarrow> bool" where
  "own_topic i t \<longleftrightarrow> t = status_topic i \<or> t = devices_topic i \<or> t = event_topic i ''device'' \<or>
     (\<exists>r. t = response_topic i r)"

definition daemon_call :: "np_config \<Rightarrow> call \<Rightarrow> bool" where
  "daemon_call cfg c \<longleftrightarrow>
     list_all (safe_nft_command (str (nft_table cfg)) (str (nft_set cfg))) (shell_of c) \<and>
     list_all (\<lambda>x. own_topic (str (device_id cfg)) (fst x)) (message_of c) \<and>
     (\<forall>t q. c = Mosq_subscribe t q \<longrightarrow> t = cmd_filter (str (device_id cfg)))"

lemma daemon_call_log: "is_log c \<Longrightarrow> daemon_call cfg c"
  by (auto simp: daemon_call_def is_log_shell is_log_message)

lemma main_handler_id: "main_handler cfg h \<Longrightarrow> mqtt_id (h_mqtt h) = str (device_id cfg)"
  by (simp add: main_handler_def mqtt_id_def main_mqtt_def)

lemma nft_action_daemon:
  "nft_action (str (nft_table cfg)) (str (nft_set cfg)) c \<Longrightarrow> daemon_call cfg c"
  using nft_action_safe [of "str (nft_table cfg)" "str (nft_set cfg)" c] nft_action_silent [of _ _ c]
  by (auto simp: daemon_call_def nft_action_def)

lemma daemon_call_simps [simp]:
  "daemon_call cfg Malloc" "daemon_call cfg (Json_parse t)" "daemon_call cfg (Json_print j)"
  "daemon_call cfg (Fopen_read f)" "daemon_call cfg (Stat_file f)"
  "daemon_call cfg (Mosq_publish (event_topic (str (device_id cfg)) ''device'') p q r)"
  "daemon_call cfg (Mosq_publish (devices_topic (str (device_id cfg))) p q r)"
  "daemon_call cfg (Mosq_publish (response_topic (str (device_id cfg)) req) p q r)"
  "daemon_call cfg (Mosq_publish (status_topic (str (device_id cfg))) p q r)"
  "daemon_call cfg (Mosq_subscribe (cmd_filter (str (device_id cfg))) q)"
  by (auto simp: daemon_call_def own_topic_def)

lemma leases_call_daemon:
  assumes "main_handler cfg h" "h_leases h = Some l" "leases_call l c"
  shows "daemon_call cfg c"
proof -
  have l: "lz_cfg l = cfg" "lz_id l = str (device_id cfg)"
    using assms(1,2) main_handler_id [OF assms(1)] by (auto simp: main_handler_def h_ok_def)
  from assms(3) consider "nft_query (str (nft_table cfg)) (str (nft_set cfg)) c"
    | "c = Fopen_read (lz_path l)" | "c = Stat_file (lz_path l)" | j where "c = Json_print j"
    | p where "c = Mosq_publish (event_topic (str (device_id cfg)) ''device'') p 1 False"
    | p where "c = Mosq_publish (devices_topic (str (device_id cfg))) p 1 True"
    unfolding leases_call_def l by blast
  then show ?thesis
  proof cases
    case 1
    then show ?thesis by (rule nft_action_daemon [OF nft_query_action])
  qed simp_all
qed

lemma handler_call_daemon:
  assumes "main_handler cfg h" "handler_call h c"
  shows "daemon_call cfg c"
proof -
  have c: "h_cfg h = cfg" using assms(1) by (simp add: main_handler_def)
  have r: "daemon_call cfg c" if "respond_call h req_id c" for req_id
    using that daemon_call_log unfolding respond_call_def main_handler_id [OF assms(1)] by fastforce
  from assms(2) consider "nft_action (str (nft_table cfg)) (str (nft_set cfg)) c" | "c = Malloc"
    | t where "c = Json_parse t" | req_id where "respond_call h req_id c"
    | l where "h_leases h = Some l" "leases_call l c"
    unfolding handler_call_def c by blast
  then show ?thesis
  proof cases
    case 1
    then show ?thesis by (rule nft_action_daemon)
  next
    case 4
    then show ?thesis by (rule r)
  next
    case 5
    then show ?thesis by (rule leases_call_daemon [OF assms(1)])
  qed simp_all
qed

lemma handle_message_state:
  "main_handler cfg h \<Longrightarrow> main_handler cfg (fst (run_state (np_handle_message E topic payload h) s))"
proof (rule message_cases [of E topic payload h s])
  fix s'
  assume "main_handler cfg h" "run_state (np_handle_message E topic payload h) s = (h, s')"
  then show ?thesis by simp
next
  fix action j s'
  assume h: "main_handler cfg h" and r: "run_state (np_handle_message E topic payload h) s =
       run_state (handle_command E h action (mac_of E j) (req_of E j)) s'"
  show ?thesis
    using h unfolding r main_handler_def handle_command_state(1,2)
    by (blast intro: handle_command_state(3))
qed

lemma keeps_message: "main_handler cfg h \<Longrightarrow> keeps (main_handler cfg) (daemon_call cfg) (on_message_trampoline E t p h)"
  unfolding on_message_trampoline_def keeps_def
  by (intro conjI allI handle_message_state emits_mono [OF emits_handle_message] handler_call_daemon)

lemma tick_state: "main_handler cfg h \<Longrightarrow> main_handler cfg (fst (run_state (tick E h) s))"
proof (cases "h_leases h")
  case None
  moreover assume "main_handler cfg h"
  ultimately show ?thesis
    by (simp add: tick_def np_leases_poll_def main_handler_def h_ok_def)
next
  case (Some l)
  assume h: "main_handler cfg h"
  show ?thesis
  proof (rule poll_result [of E l s])
    fix devs st
    assume r: "fst (run_state (np_leases_poll E (Some l)) s) = Some (settled (remember l st) devs)"
      "table_wf devs" "table_sorted devs"
    have "same_place l (settled (remember l st) devs)" by simp
    with r h Some leases_inv_settled [OF r(2,3), of "remember l st"] show ?thesis
      by (simp add: tick_def case_prod_beta main_handler_def h_ok_def same_place_def)
  next
    assume "fst (run_state (np_leases_poll E (Some l)) s) = Some l"
    with h Some show ?thesis by (simp add: tick_def case_prod_beta main_handler_def h_ok_def)
  qed
qed

lemma emits_tick: "main_handler cfg h \<Longrightarrow> emits (daemon_call cfg) (tick E h)"
proof (cases "h_leases h")
  case None
  then show ?thesis by (simp add: tick_def np_leases_poll_def emits_return)
next
  case (Some l)
  assume h: "main_handler cfg h"
  have "emits (daemon_call cfg) (np_leases_poll E (Some l))"
    by (rule emits_mono [OF emits_poll leases_call_daemon [OF h Some]])
  then show ?thesis unfolding tick_def Some by (intro emits_bind emits_return)
qed

lemma main_client_fields [simp]:
  "nm_mosq (main_client E cfg)" "nm_cfg (main_client E cfg) = cfg" "nc_stop (main_client E cfg) = 0"
  "nm_status_topic (main_client E cfg) = Some (status_topic (str (device_id cfg)))"
  "nm_cmd_filter (main_client E cfg) = Some (cmd_filter (str (device_id cfg)))"
  "nc_on_message (main_client E cfg) = Some (on_message_trampoline E)"
  "nc_tick_cb (main_client E cfg) = Some (tick E)"
  by (simp_all add: main_client_def new_client_def)

interpretation running: confined_client E "main_client E cfg" "main_handler cfg" "daemon_call cfg" for E cfg
proof unfold_locales
  show "nc_on_message (main_client E cfg) = Some cb \<Longrightarrow> main_handler cfg u \<Longrightarrow>
      keeps (main_handler cfg) (daemon_call cfg) (cb t q u)" for cb u t q
    using keeps_message by auto
  show "nc_tick_cb (main_client E cfg) = Some tk \<Longrightarrow> main_handler cfg u \<Longrightarrow>
      keeps (main_handler cfg) (daemon_call cfg) (tk u)" for tk u
    using emits_tick tick_state by (auto simp: keeps_def)
qed (simp_all add: daemon_call_log, simp_all add: daemon_call_def own_topic_def)


lemma client_calls_main: "client_calls (\<lambda>_. True) (main_client E cfg)"
proof -
  have "emits (\<lambda>_. True) (tick E u)" for u
  proof (cases "h_leases u")
    case None
    then show ?thesis by (simp add: tick_def np_leases_poll_def emits_return)
  next
    case (Some l)
    have "emits (\<lambda>_. True) (np_leases_poll E (Some l))"
      by (rule emits_mono [OF emits_poll]) simp
    then show ?thesis unfolding tick_def Some by (intro emits_bind emits_return)
  qed
  moreover have "emits (\<lambda>_. True) (on_message_trampoline E t p u)" for t p u
    unfolding on_message_trampoline_def by (rule emits_mono [OF emits_handle_message]) simp
  ultimately show ?thesis by (simp add: client_calls_def)
qed

text \<open>What a start-up that is given up did: no connection, no message.\<close>

definition offline_call :: "call \<Rightarrow> bool" where
  "offline_call c \<longleftrightarrow> (\<forall>a b d. c \<noteq> Mosq_connect_async a b d) \<and> message_of c = []"

lemma offline_ensure: "emits offline_call (np_nft_ensure E table nset)"
  unfolding np_nft_ensure_def
  by (intro emits_rules emits_run_nft) (auto simp: offline_call_def is_log_message)

lemma offline_create: "emits offline_call (np_mqtt_create E cfg cb)"
  by (rule emits_mono [OF emits_create])
    (auto simp: mqtt_setup_def offline_call_def is_log_message split: call.splits)

lemma offline_tail: "emits offline_call (setup_tail E cfg)"
  unfolding setup_tail_def np_leases_create_def
  by (intro emits_rules offline_ensure offline_create) (auto simp: offline_call_def is_log_message)

lemma offline_config: "emits offline_call (np_config_load E)"
  by (rule emits_config_load) (auto simp: offline_call_def is_log_message)

lemma offline_options: "emits offline_call (read_options argv0 opts fg)"
  by (rule emits_read_options) (auto simp: offline_call_def is_log_message)

lemma offline_trace:
  "emits offline_call m \<Longrightarrow> run_state m s = (a, s') \<Longrightarrow> list_all offline_call (sy_trace s) \<Longrightarrow> list_all offline_call (sy_trace s')"
  by (erule emitsE) auto

lemma offline_log: "list_all offline_call (log_calls E lv msg s)"
  using run_np_log(2) [of E lv msg s] by (auto simp: list_all_iff offline_call_def is_log_message)

lemma setup_offline:
  assumes "list_all offline_call (sy_trace s)"
  shows "list_all offline_call (sy_trace (snd (run_state (daemon_setup E argv) s)))"
proof -
  have tail: "list_all offline_call (sy_trace (snd (run_state (setup_tail E cfg) s1)))"
    if "list_all offline_call (sy_trace s1)" for cfg s1
    using offline_trace [OF offline_tail prod.collapse [symmetric] that] .
  have log: "list_all offline_call (sy_trace (snd (run_state (setup_log fg cfg E) s1)))"
    if "list_all offline_call (sy_trace s1)" for fg cfg s1
    using that by (auto simp: setup_log_def np_log_init_def offline_call_def [of "Openlog _"] offline_log)
  let ?s1 = "s\<lparr>sy_trace := sy_trace s @ [Getopt argv]\<rparr>"
  have g: "list_all offline_call (sy_trace ?s1)" using assms by (simp add: offline_call_def)
  obtain o_res s2 where r1: "run_state (read_options (hd (argv @ [[]])) (e_getopt E (sy_trace s @ [Getopt argv])) False) ?s1
      = (o_res, s2)" by force
  have l2: "list_all offline_call (sy_trace s2)" by (rule offline_trace [OF offline_options r1 g])
  obtain r s3 where r2: "run_state (np_config_load E) s2 = (r, s3)" by force
  have l3: "list_all offline_call (sy_trace s3)" by (rule offline_trace [OF offline_config r2 l2])
  show ?thesis
    using r1 r2 l2 l3 tail log
    by (cases o_res; cases r) (auto simp: daemon_setup_steps offline_call_def [of "Stderr _"] case_prod_beta)
qed


section \<open>Properties\<close>

text \<open>
  C7: a daemon that reaches the network loop is ready. Its configuration is complete, both drop rules were
  installed with status 0, with TLS on the library accepted the certificate files, and client and handler
  are the configured ones: the callbacks in place, the client the handler's, the watcher's invariant true.
\<close>

theorem daemon_ready:
  assumes "run_state (daemon_setup E argv) s = (Inr (m, h), s')"
  shows "\<exists>cfg. config_complete cfg \<and> m = main_client E cfg \<and> main_handler cfg h \<and>
    answered E (sy_trace s') (nft_cmd (rule_args ''saddr'' (str (nft_table cfg)) (str (nft_set cfg)))) 0 \<and>
    answered E (sy_trace s') (nft_cmd (rule_args ''daddr'' (str (nft_table cfg)) (str (nft_set cfg)))) 0 \<and>
    (tls_enabled cfg \<longrightarrow>
       accepted E (Mosq_tls_set (tls_ca_file cfg) (tls_cert_file cfg) (tls_key_file cfg)) (sy_trace s'))"
  by (rule setup_ready [OF assms]) blast

text \<open>A start on a calm day: foreground, no UCI package.\<close>

definition default_config :: np_config where
  "default_config = defaulted config_initial"

lemma default_config_fields [simp]:
  "nft_table default_config = Some ''inet netparent''" "nft_set default_config = Some ''blocked_macs''"
  "username default_config = None" "device_id default_config = Some ''router-1''"
  "tls_enabled default_config"
  by (simp_all add: default_config_def defaulted_def config_initial_def config_zero_def)

text \<open>Environments in which the start succeeds: no option, no UCI package, nothing fails.\<close>

definition easy_start :: "env \<Rightarrow> bool" where
  "easy_start E \<longleftrightarrow> (\<forall>h. e_getopt E h = [] \<and> e_uci_alloc E h \<and> e_uci_load E h = None \<and>
     e_popen E h = Some ([], 0) \<and> e_malloc E h \<and> e_mosq_new E h \<and> e_mosq E h = 0)"

lemma easy_calm: "easy_start calm"
  by (simp add: easy_start_def) (simp add: calm_def)

lemma easy_run_nft: "easy_start E \<Longrightarrow> length args < 768 \<Longrightarrow> fst (run_state (run_nft E args) s) = 0"
  by (rule run_nftE [of E args s]) (simp_all add: easy_start_def nft_answer_def nft_rc_def)

lemma easy_ensure:
  "easy_start E \<Longrightarrow> fst (run_state (np_nft_ensure E ''inet netparent'' ''blocked_macs'') s) = 0"
  using easy_start_def [of E] by (simp add: np_nft_ensure_def case_prod_beta easy_run_nft format.simps)

lemma easy_create: "easy_start E \<Longrightarrow> username cfg = None \<Longrightarrow>
    fst (run_state (np_mqtt_create E cfg cb) s) = Some (new_client cfg cb)"
  by (cases "tls_enabled cfg"; cases "tls_insecure cfg")
    (simp_all add: easy_start_def np_mqtt_create_def fmtstr_def mqtt_set_auth_def mqtt_set_tls_def Let_def
      new_client_def topic_texts del: One_nat_def)

lemma easy_setup:
  assumes "easy_start E"
  obtains m h s' where "run_state (daemon_setup E [''netparent'']) s = (Inr (m, h), s')" "nm_cfg m = default_config"
proof -
  let ?s1 = "s\<lparr>sy_trace := sy_trace s @ [Getopt [''netparent'']]\<rparr>"
  obtain r s2 where l: "run_state (np_config_load E) ?s1 = (r, s2)" by force
  have "load_outcome E t = (0, default_config)" for t
    using assms by (simp add: load_outcome_def easy_start_def default_config_def)
  moreover have "\<not> killed E h h'" for h h' using assms by (simp add: killed_def easy_start_def)
  ultimately have "r = Some (0, default_config)" by (cases rule: load_cases [OF l]) auto
  with l have load: "run_state (np_config_load E) ?s1 = (Some (0, default_config), s2)" by simp
  have opts: "e_getopt E h = []" for h using assms by (simp add: easy_start_def)
  have "fst (run_state (setup_tail E default_config) s) \<in> range Inr" for s
    using assms by (simp add: setup_tail_def case_prod_beta easy_ensure easy_create)
  then obtain m h s' where t: "run_state (setup_tail E default_config)
      (snd (run_state (setup_log False default_config E) s2)) = (Inr (m, h), s')"
    by (metis (no_types, lifting) imageE prod.collapse)
  with load opts have "run_state (daemon_setup E [''netparent'']) s = (Inr (m, h), s')"
    by (simp add: daemon_setup_steps case_prod_beta)
  moreover have "nm_cfg m = default_config" using tail_ready [OF t] by simp
  ultimately show thesis by (rule that)
qed

theorem daemon_ready_witness:
  "\<exists>m h s' cfg. run_state (daemon_setup calm [''netparent'']) sys_start = (Inr (m, h), s') \<and>
     config_complete cfg \<and> main_handler cfg h"
proof -
  obtain m h s' where r: "run_state (daemon_setup calm [''netparent'']) sys_start = (Inr (m, h), s')"
    by (rule easy_setup [OF easy_calm])
  from daemon_ready [OF this] r show ?thesis by blast
qed

text \<open>
  C36: a start that is given up. Then \<open>main\<close> ends with an exit code of 0, 1 or 2, or the process aborted
  because an allocation of the configuration failed; and the daemon has never opened a connection and never
  published anything.
\<close>

theorem main_gives_up:
  assumes "run_state (daemon_setup E argv) s = (Inl e, s')" "list_all offline_call (sy_trace s)"
  shows "np_main E argv s = Some (e, s') \<and>
    (e = Exit 0 \<or> e = Exit 1 \<or> e = Exit 2 \<or> e = Killed \<and> killed E (sy_trace s) (sy_trace s')) \<and>
    list_all offline_call (sy_trace s')"
  using assms setup_exit_codes [OF assms(1)] setup_offline [OF assms(2), of E argv] by (simp add: np_main_def)

theorem main_gives_up_witness:
  "fst (the (np_main (calm\<lparr>e_getopt := (\<lambda>_. ''fx'')\<rparr>) [''netparent'', ''-f'', ''-x''] sys_start)) = Exit 2"
proof -
  let ?E = "calm\<lparr>e_getopt := (\<lambda>_. ''fx'')\<rparr>" and ?argv = "[''netparent'', ''-f'', ''-x'']"
  obtain s' where "run_state (daemon_setup ?E ?argv) sys_start = (Inl (Exit 2), s')"
    by (simp add: daemon_setup_steps usage_def)
  from main_gives_up [OF this] show ?thesis by (simp add: sys_start_def)
qed

text \<open>
  C13: the outcome of the running daemon: 1 when the connection cannot be started; no return while no
  signal comes; and after a signal, found at the head of some iteration, 0, the retained offline status
  published on the way out and the client destroyed.
\<close>

theorem main_outcome:
  assumes starts: "run_state (daemon_setup E argv) s = (Inr (m, h), s1)"
    and con: "run_state (run_connect E m) s1 = (ok, s2)"
  shows "(\<not> ok \<longrightarrow> (\<exists>s'. np_main E argv s = Some (Exit 1, s'))) \<and>
    (ok \<and> (\<forall>n. \<not> signalled E (snd (loop_state E n m h s2))) \<longrightarrow> np_main E argv s = None) \<and>
    (ok \<and> (\<exists>n. signalled E (snd (loop_state E n m h s2))) \<longrightarrow>
      (\<exists>s' t a b. np_main E argv s = Some (Exit 0, s') \<and> nm_status_topic m = Some t \<and>
         sy_trace s' = a @ [Mosq_publish t offline 1 True] @ b \<and>
         Mosq_disconnect \<in> set b \<and> Mosq_destroy \<in> set b))"
proof -
  obtain cfg where m: "m = main_client E cfg" by (rule setup_ready [OF starts])
  let ?t = "status_topic (str (device_id cfg))"
  have run: "nm_mosq m" "nc_stop m = 0" "nm_status_topic m = Some ?t" "client_calls (\<lambda>_. True) m"
    using client_calls_main by (simp_all add: m)
  have down: "\<exists>w. sy_trace (snd (run_state (daemon_teardown E m u) s3)) = sy_trace s3 @ w \<and> Mosq_destroy \<in> set w" for s3 u
    using run(1) by (simp add: daemon_teardown_def np_log_close_def)
  note outcome = run_outcome [OF run con, of h]
  show ?thesis
  proof (intro conjI impI)
    assume "\<not> ok"
    with outcome starts show "\<exists>s'. np_main E argv s = Some (Exit 1, s')"
      by (simp add: np_main_def case_prod_beta)
  next
    assume "ok \<and> (\<forall>n. \<not> signalled E (snd (loop_state E n m h s2)))"
    with outcome starts show "np_main E argv s = None" by (simp add: np_main_def)
  next
    assume "ok \<and> (\<exists>n. signalled E (snd (loop_state E n m h s2)))"
    with outcome obtain u s3 a l d where res: "np_mqtt_run E (Some m) h s1 = Some ((0, u), s3)"
      "sy_trace s3 = a @ [Mosq_publish ?t offline 1 True] @ l @ [Mosq_disconnect] @ d" by blast
    obtain w where w: "sy_trace (snd (run_state (daemon_teardown E m u) s3)) = sy_trace s3 @ w" "Mosq_destroy \<in> set w"
      using down by blast
    have "np_main E argv s = Some (Exit 0, snd (run_state (daemon_teardown E m u) s3))"
      using starts res(1) by (simp add: np_main_def case_prod_beta)
    moreover have "sy_trace (snd (run_state (daemon_teardown E m u) s3))
        = a @ [Mosq_publish ?t offline 1 True] @ (l @ [Mosq_disconnect] @ d @ w)"
      using w(1) res(2) by simp
    moreover have "Mosq_destroy \<in> set (l @ [Mosq_disconnect] @ d @ w)" using w(2) by simp
    ultimately show "\<exists>s' t a b. np_main E argv s = Some (Exit 0, s') \<and> nm_status_topic m = Some t \<and>
         sy_trace s' = a @ [Mosq_publish t offline 1 True] @ b \<and>
         Mosq_disconnect \<in> set b \<and> Mosq_destroy \<in> set b"
      using run(3) by fastforce
  qed
qed

theorem main_outcome_witness:
  "\<exists>s'. np_main calm [''netparent''] sys_start = Some (Exit 0, s')"
proof -
  obtain m h s1 where r: "run_state (daemon_setup calm [''netparent'']) sys_start = (Inr (m, h), s1)"
    by (rule easy_setup [OF easy_calm])
  obtain ok s2 where c: "run_state (run_connect calm m) s1 = (ok, s2)" by force
  then have "ok" by (auto simp: run_connect_def)
  moreover have "signalled calm (snd (loop_state calm 0 m h s2))" by (simp add: signalled_def)
  ultimately show ?thesis using main_outcome [OF r c] by blast
qed

text \<open>What a program publishes when it is run from \<open>s\<close>, and the topics an access rule for the device covers.\<close>

definition sent_by :: "'a np \<Rightarrow> sys \<Rightarrow> (string \<times> string \<times> int \<times> bool) list" where
  "sent_by p s = drop (length (published (sy_trace s))) (published (sy_trace (snd (run_state p s))))"

definition own_prefix :: "string \<Rightarrow> string" where
  "own_prefix i = ''netparent/'' @ i @ ''/''"

definition under_prefix :: "string \<Rightarrow> (string \<times> string \<times> int \<times> bool) list \<Rightarrow> bool" where
  "under_prefix i ms \<longleftrightarrow> list_all (\<lambda>x. take (length (own_prefix i)) (fst x) = own_prefix i) ms"

lemma sent_by_published:
  "published (sy_trace (snd (run_state p s))) = published (sy_trace s) @ ms \<Longrightarrow> sent_by p s = ms"
  by (simp add: sent_by_def)

lemma cut_prefix: "take (length p) (take k (p @ x)) = p \<longleftrightarrow> length p \<le> k"
proof (cases "length p \<le> k")
  case False
  then have "length (take (length p) (take k (p @ x))) \<noteq> length p" by simp
  then have "take (length p) (take k (p @ x)) \<noteq> p" by metis
  with False show ?thesis by simp
qed (simp add: min_absorb1)

lemma topic_prefixes:
  "take (length (own_prefix i)) (devices_topic i) = own_prefix i \<longleftrightarrow> length i \<le> 116"
  "take (length (own_prefix i)) (event_topic i k) = own_prefix i \<longleftrightarrow> length i \<le> 148"
  "take (length (own_prefix i)) (status_topic i) = own_prefix i"
  "take (length (own_prefix i)) (response_topic i r) = own_prefix i"
proof -
  have l: "length (own_prefix i) = length i + 11" by (simp add: own_prefix_def)
  have w: "take (length (own_prefix i)) (own_prefix i @ x) = own_prefix i" for x by simp
  have t: "devices_topic i = take 127 (own_prefix i @ ''devices'')"
    "event_topic i k = take 159 (own_prefix i @ ''event/'' @ k)"
    "status_topic i = own_prefix i @ ''status''" "response_topic i r = own_prefix i @ ''response/'' @ r"
    by (simp_all add: devices_topic_def event_topic_def status_topic_def response_topic_def own_prefix_def)
  show "take (length (own_prefix i)) (devices_topic i) = own_prefix i \<longleftrightarrow> length i \<le> 116"
    using l cut_prefix [of "own_prefix i" 127] unfolding t(1) by simp
  show "take (length (own_prefix i)) (event_topic i k) = own_prefix i \<longleftrightarrow> length i \<le> 148"
    using l cut_prefix [of "own_prefix i" 159] unfolding t(2) by simp
  show "take (length (own_prefix i)) (status_topic i) = own_prefix i"
    "take (length (own_prefix i)) (response_topic i r) = own_prefix i"
    unfolding t(3,4) by (rule w)+
qed

text \<open>
  C38: what a device publishes is under its own prefix \<open>netparent/ID/\<close>, as the access rules of the broker
  want it, exactly as long as its buffers hold the prefix. For a client of \<open>np_mqtt_create\<close>, status and
  responses always are; a snapshot is exactly when the id has at most 116 bytes, and an event of any kind exactly
  when it has at most 148: beyond that they go to a topic that is cut off inside the prefix.
\<close>

theorem topics_under_prefix:
  assumes "fst (run_state (np_mqtt_create E0 cfg cb) s0) = Some m"
  shows "under_prefix (str (device_id cfg)) (sent_by (np_mqtt_publish_status E (Some m) p) s) \<and>
    under_prefix (str (device_id cfg)) (sent_by (np_mqtt_publish_response E (Some m) r p) s) \<and>
    (under_prefix (str (device_id cfg)) (sent_by (np_mqtt_publish_devices E (Some m) p) s)
       \<longleftrightarrow> length (str (device_id cfg)) \<le> 116) \<and>
    (under_prefix (str (device_id cfg)) (sent_by (np_mqtt_publish_event E (Some m) (Some k) p) s)
       \<longleftrightarrow> length (str (device_id cfg)) \<le> 148)"
proof -
  obtain s1 where "run_state (np_mqtt_create E0 cfg cb) s0 = (Some m, s1)" using assms by (metis prod.collapse)
  from create_SomeD [OF this] have m: "m = new_client cfg cb" by blast
  then have live: "mqtt_live (Some m)" "status_live (Some m)" "mqtt_id (Some m) = str (device_id cfg)"
    "str (nm_status_topic (the (Some m))) = status_topic (str (device_id cfg))"
    by (simp_all add: mqtt_live_def status_live_def mqtt_id_def new_client_def str_def)
  show ?thesis
    using sent_by_published [OF status.published_pub [of E "Some m" p s]]
      sent_by_published [OF published_response [of E "Some m" r p s]]
      sent_by_published [OF devices.published_pub [of E "Some m" p s]]
      sent_by_published [OF device_event.published_pub [of E "Some m" k p s]] live
    by (simp add: under_prefix_def topic_prefixes)
qed

theorem topics_under_prefix_witness:
  "\<exists>m. fst (run_state (np_mqtt_create calm sample_config
       (None :: (string \<Rightarrow> string \<Rightarrow> unit \<Rightarrow> unit np) option)) sys_start) = Some m \<and>
     under_prefix ''router-1'' (sent_by (np_mqtt_publish_devices calm (Some m) ''[]'') sys_start)"
proof -
  note c = sample_create [of "None :: (string \<Rightarrow> string \<Rightarrow> unit \<Rightarrow> unit np) option" sys_start]
  have "str (device_id sample_config) = ''router-1''" by (simp add: str_def)
  with c topics_under_prefix [OF c, of calm "''[]''" sys_start] show ?thesis by simp
qed

end
