(* ===== verification/Session.thy ===== *)
theory Session
  imports Daemon
begin

text \<open>
  The process as a transition system, and what a whole run does to the set of blocked addresses. The phases
  are the places where \<open>main\<close> waits for the outside: the head of the network loop, the ten rounds of
  draining, and the end. The relation is shown to be \<open>np_main\<close>, and the set in a working kernel to be, in
  every reachable phase, the one that the delivered messages describe.
\<close>

section \<open>Phases and steps\<close>

datatype phase =
    Looping np_handler sys
  | Draining nat np_handler sys
  | Ended process_end sys

definition goodbye :: "env \<Rightarrow> np_handler np_client \<Rightarrow> unit np" where
  "goodbye E m = do {
     _ \<leftarrow> np_mqtt_publish_status E (Some m) offline;
     _ \<leftarrow> ask (e_mosq E) Mosq_disconnect;
     ret () }"

inductive process_step :: "env \<Rightarrow> np_handler np_client \<Rightarrow> phase \<Rightarrow> phase \<Rightarrow> bool" for E m where
  serve: "\<not> signalled E s \<Longrightarrow> run_state (run_iteration E m h) (after_read s) = (h', s') \<Longrightarrow>
     process_step E m (Looping h s) (Looping h' s')"
| leave: "signalled E s \<Longrightarrow> run_state (goodbye E m) (after_read s) = ((), s') \<Longrightarrow>
     process_step E m (Looping h s) (Draining 10 h s')"
| drain_round: "run_state (mosq_loop E 100 m h) s = ((rc, h'), s') \<Longrightarrow>
     process_step E m (Draining (Suc n) h s) (Draining n h' s')"
| finish: "run_state (daemon_teardown E m h) s = (r, s') \<Longrightarrow>
     process_step E m (Draining 0 h s) (Ended (Exit 0) s')"

inductive_cases serveE: "process_step E m (Looping h s) p"
inductive_cases drainE: "process_step E m (Draining n h s) p"
inductive_simps ended_simps: "process_step E m (Ended e s) p"

inductive reached :: "env \<Rightarrow> string list \<Rightarrow> sys \<Rightarrow> phase \<Rightarrow> bool" for E argv s where
  given_up: "run_state (daemon_setup E argv) s = (Inl e, s1) \<Longrightarrow> reached E argv s (Ended e s1)"
| no_connection: "run_state (daemon_setup E argv) s = (Inr (m, h), s1) \<Longrightarrow>
     run_state (run_connect E m) s1 = (False, s2) \<Longrightarrow> run_state (daemon_teardown E m h) s2 = (r, s3) \<Longrightarrow>
     reached E argv s (Ended (Exit 1) s3)"
| connected: "run_state (daemon_setup E argv) s = (Inr (m, h), s1) \<Longrightarrow>
     run_state (run_connect E m) s1 = (True, s2) \<Longrightarrow> reached E argv s (Looping h s2)"
| moved: "run_state (daemon_setup E argv) s = (Inr (m, h), s1) \<Longrightarrow> reached E argv s p \<Longrightarrow>
     process_step E m p q \<Longrightarrow> reached E argv s q"

text \<open>The process never gets stuck before it has ended, and it has no choice.\<close>

lemma step_progress: "(\<forall>e s. p \<noteq> Ended e s) \<Longrightarrow> \<exists>q. process_step E m p q"
proof (cases p)
  case (Looping h s)
  then show ?thesis
    by (cases "signalled E s"; cases "run_state (run_iteration E m h) (after_read s)";
        cases "run_state (goodbye E m) (after_read s)") (auto intro: process_step.intros)
next
  case (Draining n h s)
  then show ?thesis
    by (cases n; cases "run_state (mosq_loop E 100 m h) s"; cases "run_state (daemon_teardown E m h) s")
      (auto intro: process_step.intros)
qed auto

lemma step_deterministic: "process_step E m p q \<Longrightarrow> process_step E m p q' \<Longrightarrow> q = q'"
  by (cases p) (auto elim!: serveE drainE simp: ended_simps)


section \<open>The steps are the program\<close>

lemma publish_status_stopped [simp]:
  "np_mqtt_publish_status E (Some (stopped m)) = np_mqtt_publish_status E (Some m)"
  by (rule ext) (simp add: np_mqtt_publish_status_def stopped_def)

lemma stopped_fields [simp]:
  "nm_cmd_filter (stopped m) = nm_cmd_filter m" "nc_on_message (stopped m) = nc_on_message m"
  by (simp_all add: stopped_def)

lemma callbacks_stopped: "on_connect E (stopped m) = on_connect E m" "on_message E (stopped m) = on_message E m"
  unfolding fun_eq_iff on_connect_def on_message_def publish_status_stopped stopped_fields by blast+

lemma dispatch_stopped [simp]: "dispatch E (stopped m) ev u = dispatch E m ev u"
  by (cases ev) (simp_all add: callbacks_stopped)

lemma mosq_loop_stopped [simp]: "mosq_loop E n (stopped m) u = mosq_loop E n m u"
proof -
  have "dispatch E (stopped m) = dispatch E m" by (intro ext) simp
  then show ?thesis by (simp add: mosq_loop_def)
qed

lemma drain_stopped [simp]: "drain E n (stopped m) u = drain E n m u"
  by (induction n arbitrary: u) simp_all

lemma shutdown_goodbye:
  "run_state (run_shutdown E (stopped m) h) s = run_state (drain E 10 m h) (snd (run_state (goodbye E m) s))"
  by (simp add: run_shutdown_def goodbye_def case_prod_beta)

text \<open>What the program makes of a phase.\<close>

definition ending :: "env \<Rightarrow> np_handler np_client \<Rightarrow> np_handler \<times> sys \<Rightarrow> process_end \<times> sys" where
  "ending E m hs = (Exit 0, snd (run_state (daemon_teardown E m (fst hs)) (snd hs)))"

fun outcome_of :: "env \<Rightarrow> np_handler np_client \<Rightarrow> phase \<Rightarrow> (process_end \<times> sys) option" where
  "outcome_of E m (Looping h s) = (case run_loop E m h s of
      None \<Rightarrow> None
    | Some ((m', h'), s') \<Rightarrow> Some (ending E m (run_state (run_shutdown E m' h') s')))"
| "outcome_of E m (Draining n h s) = Some (ending E m (run_state (drain E n m h) s))"
| "outcome_of E m (Ended e s) = Some (e, s)"

lemma step_outcome: "process_step E m p q \<Longrightarrow> nc_stop m = 0 \<Longrightarrow> outcome_of E m p = outcome_of E m q"
proof (induction rule: process_step.induct)
  case (leave s s' h)
  then show ?case by (simp add: run_loop_step shutdown_goodbye)
next
  case (serve s h h' s')
  then show ?case by (simp add: run_loop_step)
next
  case (drain_round h s rc h' s' n)
  then show ?case by simp
next
  case (finish h s r s')
  then show ?case by (simp add: ending_def)
qed

lemma setup_client:
  assumes "run_state (daemon_setup E argv) s = (Inr (m, h), s1)"
  shows "nm_mosq m" "nc_stop m = 0"
  using setup_ready [OF assms] by (metis main_client_fields(1), metis main_client_fields(3))

lemma main_run:
  assumes "run_state (daemon_setup E argv) s = (Inr (m, h), s1)" "run_state (run_connect E m) s1 = (ok, s2)"
  shows "np_main E argv s =
    (if ok then outcome_of E m (Looping h s2) else Some (Exit 1, snd (run_state (daemon_teardown E m h) s2)))"
  using assms setup_client [OF assms(1)]
  by (auto simp: np_main_def np_mqtt_run_def ending_def case_prod_beta split: option.splits)

lemma reached_outcome:
  "reached E argv s p \<Longrightarrow>
     (\<exists>e s1. run_state (daemon_setup E argv) s = (Inl e, s1) \<and> p = Ended e s1) \<or>
     (\<exists>m h s1. run_state (daemon_setup E argv) s = (Inr (m, h), s1) \<and> np_main E argv s = outcome_of E m p)"
proof (induction rule: reached.induct)
  case (given_up e s1)
  then show ?case by blast
next
  case (no_connection m h s1 s2 r s3)
  then show ?case using main_run [OF no_connection(1,2)] by auto
next
  case (connected m h s1 s2)
  then show ?case using main_run [OF connected(1,2)] by auto
next
  case (moved m h s1 p q)
  then have "np_main E argv s = outcome_of E m p" by auto
  with step_outcome [OF moved(3) setup_client(2) [OF moved(1)]] moved(1) show ?case by auto
qed

lemma loop_state_last:
  "loop_state E (Suc n) m u s =
     run_state (run_iteration E m (fst (loop_state E n m u s))) (after_read (snd (loop_state E n m u s)))"
  by (induction n arbitrary: u s) (simp_all add: case_prod_beta)

lemma loop_reached:
  assumes "run_state (daemon_setup E argv) s = (Inr (m, h), s1)" "run_state (run_connect E m) s1 = (True, s2)"
    and "\<And>k. k < n \<Longrightarrow> \<not> signalled E (snd (loop_state E k m h s2))"
  shows "reached E argv s (Looping (fst (loop_state E n m h s2)) (snd (loop_state E n m h s2)))"
  using assms(3)
proof (induction n)
  case 0
  then show ?case using connected [OF assms(1,2)] by simp
next
  case (Suc n)
  then have "reached E argv s (Looping (fst (loop_state E n m h s2)) (snd (loop_state E n m h s2)))" by simp
  moreover have "\<not> signalled E (snd (loop_state E n m h s2))" using Suc.prems by simp
  ultimately show ?case
    unfolding loop_state_last by (blast intro: moved [OF assms(1)] serve prod.collapse [symmetric])
qed

lemma drain_reached:
  assumes "run_state (daemon_setup E argv) s = (Inr (m, h0), s1)" "reached E argv s (Draining n h s2)"
  shows "reached E argv s (Draining 0 (fst (run_state (drain E n m h) s2)) (snd (run_state (drain E n m h) s2)))"
  using assms(2)
proof (induction n arbitrary: h s2)
  case (Suc n)
  obtain rc h' s' where r: "run_state (mosq_loop E 100 m h) s2 = ((rc, h'), s')" by (metis surj_pair)
  from Suc.IH [OF moved [OF assms(1) Suc.prems drain_round [OF r]]] r show ?case by simp
qed simp

lemma main_reached:
  assumes "np_main E argv s = Some (e, s')"
  shows "reached E argv s (Ended e s')"
proof (cases "fst (run_state (daemon_setup E argv) s)")
  case (Inl e')
  then obtain s1 where "run_state (daemon_setup E argv) s = (Inl e', s1)" by (metis prod.collapse)
  with assms given_up [OF this] show ?thesis by (simp add: np_main_def)
next
  case (Inr mh)
  then obtain m h s1 where r: "run_state (daemon_setup E argv) s = (Inr (m, h), s1)" by (metis prod.collapse)
  obtain ok s2 where c: "run_state (run_connect E m) s1 = (ok, s2)" by force
  note main = main_run [OF r c]
  show ?thesis
  proof (cases ok)
    case False
    with c have "run_state (run_connect E m) s1 = (False, s2)" by simp
    from no_connection [OF r this prod.collapse [symmetric]] assms main False show ?thesis by simp
  next
    case True
    let ?at = "\<lambda>n. loop_state E n m h s2"
    obtain x where x: "run_loop E m h s2 = Some x"
      using assms main True by (cases "run_loop E m h s2") auto
    with run_loop_returned [OF x] setup_client(2) [OF r] have "\<exists>n. signalled E (snd (?at n))" by simp
    then obtain n where n: "signalled E (snd (?at n))" "\<And>k. k < n \<Longrightarrow> \<not> signalled E (snd (?at k))"
      using exists_least_iff [of "\<lambda>n. signalled E (snd (?at n))"] by blast
    have loop: "run_loop E m h s2 = Some ((stopped m, fst (?at n)), after_read (snd (?at n)))"
      by (rule run_loop_at [OF setup_client(2) [OF r] n(2,1)])
    let ?g = "snd (run_state (goodbye E m) (after_read (snd (?at n))))"
    have "reached E argv s (Looping (fst (?at n)) (snd (?at n)))"
      using loop_reached [OF r _ n(2)] c True by simp
    from moved [OF r this leave [OF n(1)], of ?g] have "reached E argv s (Draining 10 (fst (?at n)) ?g)"
      by (simp add: prod_eq_iff)
    from moved [OF r drain_reached [OF r this] finish [OF prod.collapse [symmetric]]] show ?thesis
      using assms main True loop by (simp add: ending_def shutdown_goodbye)
  qed
qed


section \<open>What the broker delivered\<close>

text \<open>
  The callbacks made so far, in order, from the history: those of every \<open>mosquitto_loop\<close>. A callback
  that delivers a message on a command topic of the device, with a payload that parses, is a command.
\<close>

definition loop_events :: "env \<Rightarrow> history \<Rightarrow> mosq_event list" where
  "loop_events E t = (case last t of Mosq_loop _ \<Rightarrow> fst (e_loop E t) | _ \<Rightarrow> [])"

definition received :: "env \<Rightarrow> history \<Rightarrow> mosq_event list" where
  "received E t = concat (List.map (\<lambda>k. loop_events E (take (Suc k) t)) [0..<length t])"

definition message_command :: "env \<Rightarrow> (string \<Rightarrow> json option) \<Rightarrow> string \<Rightarrow> string \<Rightarrow> string \<Rightarrow> command option" where
  "message_command E parse i topic payload = (case parse_action topic i of
      None \<Rightarrow> None
    | Some action \<Rightarrow> (case if payload = [] then Some (JObj []) else parse (c_str payload) of
        None \<Rightarrow> None
      | Some j \<Rightarrow> Some (action, mac_of E j, req_of E j)))"

definition event_command :: "env \<Rightarrow> (string \<Rightarrow> json option) \<Rightarrow> string \<Rightarrow> mosq_event \<Rightarrow> command option" where
  "event_command E parse i ev = (case ev of
      Ev_message (Some (Some topic, payload)) \<Rightarrow> message_command E parse i topic payload | _ \<Rightarrow> None)"

definition session :: "env \<Rightarrow> (string \<Rightarrow> json option) \<Rightarrow> string \<Rightarrow> mosq_event list \<Rightarrow> string set \<Rightarrow> string set" where
  "session E parse i evs = abstract_commands (List.map_filter (event_command E parse i) evs)"

text \<open>
  A world that works: the kernel, memory, and a parser whose result depends on the text alone.
\<close>

definition works :: "env \<Rightarrow> (string \<Rightarrow> json option) \<Rightarrow> np_config \<Rightarrow> string set \<Rightarrow> bool" where
  "works E parse cfg S \<longleftrightarrow> nft_kernel E (str (nft_table cfg)) (str (nft_set cfg)) S \<and>
     names_fit (str (nft_table cfg)) (str (nft_set cfg)) \<and> (\<forall>t. e_malloc E t) \<and>
     (\<forall>t b. e_parse E (t @ [Json_parse b]) = parse b)"

abbreviation cfg_set :: "np_config \<Rightarrow> string set \<Rightarrow> history \<Rightarrow> string set" where
  "cfg_set cfg S t \<equiv> set_after (str (nft_table cfg)) (str (nft_set cfg)) S t"

definition in_step :: "env \<Rightarrow> (string \<Rightarrow> json option) \<Rightarrow> np_config \<Rightarrow> string set \<Rightarrow> history \<Rightarrow> bool" where
  "in_step E parse cfg S t \<longleftrightarrow> cfg_set cfg S t = session E parse (str (device_id cfg)) (received E t) S"

definition no_loop :: "call \<Rightarrow> bool" where
  "no_loop c \<longleftrightarrow> (\<forall>n. c \<noteq> Mosq_loop n)"

definition quiet :: "np_config \<Rightarrow> call \<Rightarrow> bool" where
  "quiet cfg c \<longleftrightarrow> no_loop c \<and> (\<forall>S. set_step (str (nft_table cfg)) (str (nft_set cfg)) c S = S)"

lemma received_snoc: "received E (t @ [c]) = received E t @ loop_events E (t @ [c])"
proof -
  have eq: "List.map (\<lambda>k. loop_events E (take (Suc k) (t @ [c]))) [0..<length t] =
      List.map (\<lambda>k. loop_events E (take (Suc k) t)) [0..<length t]"
    by (rule map_cong) simp_all
  have "received E (t @ [c]) = concat (List.map (\<lambda>k. loop_events E (take (Suc k) (t @ [c]))) [0..<length t])
      @ loop_events E (t @ [c])"
    by (simp add: received_def del: take_append)
  then show ?thesis by (simp only: eq received_def)
qed

lemma received_quiet: "list_all no_loop u \<Longrightarrow> received E (t @ u) = received E t"
proof (induction u rule: rev_induct)
  case (snoc c u)
  then show ?case
    using received_snoc [of E "t @ u" c] by (simp add: loop_events_def no_loop_def split: call.splits)
qed simp

lemma session_append: "session E parse i (evs @ evs') S = session E parse i evs' (session E parse i evs S)"
  by (simp add: session_def List.map_filter_def abstract_commands_def)

lemma session_Nil [simp]: "session E parse i [] S = S"
  by (simp add: session_def List.map_filter_def abstract_commands_def)

lemma no_loop_log: "is_log c \<Longrightarrow> no_loop c"
  by (cases c) (simp_all add: no_loop_def)

lemma quiet_log: "is_log c \<Longrightarrow> quiet cfg c"
  by (simp add: quiet_def no_loop_log set_after_log)

lemma quiet_calls [simp]:
  "quiet cfg Malloc" "quiet cfg (Json_parse t)" "quiet cfg (Json_print j)" "quiet cfg (Fopen_read f)"
  "quiet cfg (Stat_file f)" "quiet cfg (Mosq_publish a b k r)" "quiet cfg (Mosq_subscribe a k)"
  "quiet cfg Signal_window" "quiet cfg Mosq_disconnect" "quiet cfg Mosq_reconnect_async" "quiet cfg Mosq_destroy"
  "quiet cfg Mosq_lib_cleanup" "quiet cfg Closelog" "quiet cfg (Openlog i)" "quiet cfg (Mosq_connect_async a x y)"
  "quiet cfg Sigaction" "quiet cfg (Stderr e)" "quiet cfg (Getopt argv)" "quiet cfg Abort"
  "quiet cfg Uci_alloc_context" "quiet cfg (Uci_load n)" "quiet cfg Uci_unload" "quiet cfg Uci_free_context"
  "quiet cfg (Popen_write a b)"
  by (simp_all add: quiet_def no_loop_def set_step_def)

lemma in_step_quiet: "in_step E parse cfg S t \<Longrightarrow> list_all (quiet cfg) u \<Longrightarrow> in_step E parse cfg S (t @ u)"
proof -
  assume u: "list_all (quiet cfg) u" and t: "in_step E parse cfg S t"
  from u have "list_all no_loop u" "list_all (\<lambda>c. \<forall>S. set_step (str (nft_table cfg)) (str (nft_set cfg)) c S = S) u"
    by (auto simp: list_all_iff quiet_def)
  with t show ?thesis by (simp add: in_step_def received_quiet set_after_append set_after_quiet)
qed

lemma in_step_run:
  "in_step E parse cfg S (sy_trace s) \<Longrightarrow> emits (quiet cfg) m \<Longrightarrow> in_step E parse cfg S (sy_trace (snd (run_state m s)))"
  using emits_trace [of "quiet cfg" m s] in_step_quiet by force


section \<open>One message, one loop\<close>

lemma set_message:
  assumes w: "works E parse cfg S" and h: "main_handler cfg h"
  shows "cfg_set cfg S (sy_trace (snd (run_state (np_handle_message E topic payload h) s)))
     = session E parse (str (device_id cfg)) [Ev_message (Some (Some topic, payload))] (cfg_set cfg S (sy_trace s))"
proof -
  let ?after = "cfg_set cfg S"
  have c: "h_cfg h = cfg" "h_ok h" using h by (simp_all add: main_handler_def)
  have logs: "cfg_set cfg A (log_calls E lv msg s1) = A" for A lv msg s1
    using run_np_log(2) [of E lv msg s1] set_after_log by (simp add: set_after_quiet list_all_iff)
  have call: "set_step (str (nft_table cfg)) (str (nft_set cfg)) c A = A" if "quiet cfg c" for A c
    using that by (simp add: quiet_def)
  note command = handle_command_set [of E h S, unfolded c(1), OF _ _ c(2)]
  have k: "nft_kernel E (str (nft_table cfg)) (str (nft_set cfg)) S"
    "names_fit (str (nft_table cfg)) (str (nft_set cfg))" "\<And>t. e_malloc E t"
    "\<And>t b. e_parse E (t @ [Json_parse b]) = parse b"
    using w by (simp_all add: works_def)
  note command_at = command [OF k(1,2)]
  have one: "session E parse i [Ev_message (Some (Some topic, payload))] A =
      (case message_command E parse i topic payload of None \<Rightarrow> A | Some (action, mac, req) \<Rightarrow> abstract_set action mac A)"
    for i A
    by (simp add: session_def map_filter_simps event_command_def abstract_commands_def split: option.splits)
  show ?thesis
  proof (cases "parse_action topic (str (device_id cfg))")
    case None
    then show ?thesis
      by (simp add: one message_command_def np_handle_message_def c(1) LOG_WARN_def run_np_log(1) logs set_after_append)
  next
    case (Some action)
    then show ?thesis
      unfolding one
      by (cases "payload = []"; cases "parse (c_str payload)")
        (simp_all add: message_command_def np_handle_message_def c(1) LOG_WARN_def LOG_INFO_def run_np_log(1) logs
          k(3,4) k(4) [of "_ @ [_]", simplified] call set_after_append command_at mac_of_def req_of_def Let_def)
  qed
qed

lemma emits_message_no_loop: "emits no_loop (np_handle_message E topic payload h)"
proof (rule emits_mono [OF emits_handle_message])
  have log: "nft_action a b c \<Longrightarrow> no_loop c" for a b c
    by (auto simp: nft_action_def no_loop_log) (auto simp: no_loop_def)
  have query: "leases_call l c \<Longrightarrow> no_loop c" for l c
    using log [OF nft_query_action] by (auto simp: leases_call_def) (auto simp: no_loop_def)
  fix c
  assume "handler_call h c"
  with log query show "no_loop c"
    by (auto simp: handler_call_def respond_call_def no_loop_log) (auto simp: no_loop_def)
qed

lemma quiet_no_loop: "quiet cfg c \<Longrightarrow> no_loop c"
  by (simp add: quiet_def)

text \<open>A callback changes the set as its command says, and keeps the handler.\<close>

definition serves :: "env \<Rightarrow> (string \<Rightarrow> json option) \<Rightarrow> np_config \<Rightarrow> string set \<Rightarrow> mosq_event list \<Rightarrow>
    np_handler np \<Rightarrow> bool" where
  "serves E parse cfg S evs m \<longleftrightarrow> emits no_loop m \<and>
     (\<forall>s. main_handler cfg (fst (run_state m s)) \<and> cfg_set cfg S (sy_trace (snd (run_state m s)))
       = session E parse (str (device_id cfg)) evs (cfg_set cfg S (sy_trace s)))"

lemma serves_after:
  assumes "emits (quiet cfg) k" "serves E parse cfg S evs m"
  shows "serves E parse cfg S evs (do { k; m })"
proof -
  have "emits (\<lambda>c. \<forall>S. set_step (str (nft_table cfg)) (str (nft_set cfg)) c S = S) k"
    by (rule emits_mono [OF assms(1)]) (simp add: quiet_def)
  from set_after_emits [OF this] assms(2) emits_mono [OF assms(1) quiet_no_loop] show ?thesis
    by (simp add: serves_def case_prod_beta emits_bind)
qed

lemma serves_return: "main_handler cfg h \<Longrightarrow> serves E parse cfg S [] (ret h)"
  by (simp add: serves_def emits_return)

lemma session_ignored: "event_command E parse i ev = None \<Longrightarrow> session E parse i [ev] = session E parse i []"
  by (rule ext) (simp add: session_def List.map_filter_def)

lemma serves_dispatch:
  assumes w: "works E parse cfg S" and h: "main_handler cfg h"
  shows "serves E parse cfg S [ev] (dispatch E (main_client E cfg) ev h)"
proof -
  have idle: "serves E parse cfg S [ev] (do { k; ret h })"
    if "emits (quiet cfg) k" "event_command E parse (str (device_id cfg)) ev = None" for k
    using serves_after [OF that(1) serves_return [OF h]] session_ignored [OF that(2)] by (simp add: serves_def)
  show ?thesis
  proof (cases ev)
    case (Ev_message msg)
    consider topic payload where "msg = Some (Some topic, payload)" | "\<And>u. on_message E (main_client E cfg) msg u = ret u"
        "event_command E parse (str (device_id cfg)) ev = None"
      by (cases msg; cases "fst (the msg)") (auto simp: on_message_def event_command_def Ev_message)
    then show ?thesis
    proof cases
      case 1
      have "serves E parse cfg S [ev] (np_handle_message E topic payload h)"
        using set_message [OF w h] emits_message_no_loop handle_message_state [OF h]
        by (simp add: serves_def Ev_message 1)
      from serves_after [OF _ this, of "LOG_DBG E fmt args" for fmt args] show ?thesis
        by (simp add: Ev_message 1 on_message_def on_message_trampoline_def emits_LOG quiet_log)
    next
      case 2
      from idle [OF emits_return [of _ "()"] 2(2)] 2(1) show ?thesis by (simp add: Ev_message)
    qed
  next
    case (Ev_connect rc)
    have "emits (quiet cfg) (on_connect E (main_client E cfg) rc)"
      by (intro emits_on_connect) (simp_all add: quiet_log)
    from idle [OF this] show ?thesis by (simp add: Ev_connect event_command_def)
  next
    case (Ev_disconnect rc)
    from idle [OF emits_on_disconnect [OF quiet_log]] show ?thesis by (simp add: Ev_disconnect event_command_def)
  next
    case (Ev_log level msg)
    from idle [OF emits_on_log [OF quiet_log]] show ?thesis by (simp add: Ev_log event_command_def)
  qed
qed

lemma serves_fold:
  assumes w: "works E parse cfg S" and h: "main_handler cfg h"
  shows "serves E parse cfg S evs (fold_np (dispatch E (main_client E cfg)) evs h)"
  using h
proof (induction evs arbitrary: h)
  case Nil
  then show ?case by (simp add: serves_return)
next
  case (Cons ev evs)
  let ?d = "dispatch E (main_client E cfg) ev h"
  note d = serves_dispatch [OF w Cons.prems, of ev, unfolded serves_def]
  have f: "serves E parse cfg S evs (fold_np (dispatch E (main_client E cfg)) evs (fst (run_state ?d s)))" for s
    using Cons.IH d by simp
  have "emits no_loop (do { u \<leftarrow> ?d; fold_np (dispatch E (main_client E cfg)) evs u })"
    using d f by (intro emits_bindS) (simp_all add: serves_def)
  moreover have "session E parse i (ev # evs) A = session E parse i evs (session E parse i [ev] A)" for i A
    using session_append [of E parse i "[ev]" evs A] by simp
  ultimately show ?case
    using d f by (simp add: serves_def case_prod_beta)
qed

lemma loop_in_step:
  assumes w: "works E parse cfg S" and h: "main_handler cfg h" and t: "in_step E parse cfg S (sy_trace s)"
    and r: "run_state (mosq_loop E n (main_client E cfg) h) s = ((rc, h'), s')"
  shows "main_handler cfg h' \<and> in_step E parse cfg S (sy_trace s')"
proof -
  let ?c = "Mosq_loop n"
  let ?s1 = "s\<lparr>sy_trace := sy_trace s @ [?c]\<rparr>"
  let ?evs = "fst (e_loop E (sy_trace ?s1))"
  let ?f = "fold_np (dispatch E (main_client E cfg)) ?evs h"
  have f: "run_state ?f ?s1 = (h', s')"
    using r by (auto simp: mosq_loop_def case_prod_beta prod_eq_iff)
  note d = serves_fold [OF w h, of ?evs, unfolded serves_def]
  obtain u where u: "sy_trace s' = sy_trace ?s1 @ u" "list_all no_loop u"
    using emits_trace [of no_loop ?f ?s1] d f by auto
  have "received E (sy_trace s') = received E (sy_trace s) @ ?evs"
    unfolding u(1) received_quiet [OF u(2)] by (simp add: received_snoc loop_events_def)
  moreover have "cfg_set cfg S (sy_trace ?s1) = cfg_set cfg S (sy_trace s)"
    by (simp add: set_after_append set_step_def)
  moreover have "main_handler cfg h'" "cfg_set cfg S (sy_trace s')
      = session E parse (str (device_id cfg)) ?evs (cfg_set cfg S (sy_trace ?s1))"
    using d f by (metis fst_conv, metis snd_conv)
  ultimately show ?thesis using t by (simp add: in_step_def session_append)
qed

lemma leases_call_quiet:
  assumes "main_handler cfg h" "h_leases h = Some l" "leases_call l c"
  shows "quiet cfg c"
proof -
  have "lz_cfg l = cfg" using assms(1,2) by (auto simp: main_handler_def h_ok_def)
  moreover have "no_loop c"
    using assms(3) nft_query_action by (auto simp: leases_call_def no_loop_def nft_query_def)
  ultimately show ?thesis using leases_quiet [OF assms(3)] by (simp add: quiet_def)
qed

lemma tick_quiet: "main_handler cfg h \<Longrightarrow> emits (quiet cfg) (tick E h)"
proof (cases "h_leases h")
  case None
  then show ?thesis by (simp add: tick_def np_leases_poll_def emits_return)
next
  case (Some l)
  assume h: "main_handler cfg h"
  have "emits (quiet cfg) (np_leases_poll E (Some l))"
    by (rule emits_mono [OF emits_poll leases_call_quiet [OF h Some]])
  then show ?thesis unfolding tick_def Some by (intro emits_bind emits_return)
qed

lemma iteration_in_step:
  assumes w: "works E parse cfg S" and h: "main_handler cfg h" and t: "in_step E parse cfg S (sy_trace s)"
  shows "main_handler cfg (fst (run_state (run_iteration E (main_client E cfg) h) s)) \<and>
    in_step E parse cfg S (sy_trace (snd (run_state (run_iteration E (main_client E cfg) h) s)))"
proof -
  obtain rc h1 s1 where r: "run_state (mosq_loop E 500 (main_client E cfg) h) s = ((rc, h1), s1)" by (metis surj_pair)
  note l = loop_in_step [OF w h t r]
  let ?react = "if rc = 4 \<or> rc = 7
      then do { LOG_WARN E ''connection lost; reconnecting'' [];
                _ \<leftarrow> ask (e_mosq E) Mosq_reconnect_async; ret () }
      else if rc \<noteq> 0 then LOG_DBG E ''mosquitto_loop rc=%d (%s)'' [show_int rc, e_strerror E rc] else ret ()"
  have "emits (quiet cfg) ?react" by (intro emits_rules) (simp_all add: quiet_log)
  from in_step_run [OF conjunct2 [OF l] this] obtain s2 where s2: "run_state ?react s1 = ((), s2)"
    "in_step E parse cfg S (sy_trace s2)" by (cases "run_state ?react s1") auto
  have "run_state (run_iteration E (main_client E cfg) h) s = run_state (tick E h1) s2"
    using r s2(1) by (auto simp: run_iteration_def split: if_splits)
  with in_step_run [OF s2(2) tick_quiet] tick_state l show ?thesis by simp
qed


section \<open>The whole process\<close>

lemma setup_texts:
  "nft_cmd (flush_args table) = ''nft flush chain '' @ table @ '' netparent_fwd 2>&1''"
  "nft_cmd (rule_args ''saddr'' table nset) =
     ''nft add rule '' @ table @ '' netparent_fwd ether saddr @'' @ nset @ '' counter drop 2>&1''"
  "nft_cmd (rule_args ''daddr'' table nset) =
     ''nft add rule '' @ table @ '' netparent_fwd ether daddr @'' @ nset @ '' counter drop 2>&1''"
  by (simp_all add: nft_cmd_text flush_args_def rule_args_def format.simps)

lemma setup_args_quiet:
  "quiet cfg (Popen_read ''nft -f - 2>&1'')"
  "quiet cfg (Popen_read (nft_cmd (flush_args table)))"
  "quiet cfg (Popen_read (nft_cmd (rule_args ''saddr'' table nset)))"
  "quiet cfg (Popen_read (nft_cmd (rule_args ''daddr'' table nset)))"
  unfolding setup_texts
  by (simp_all add: quiet_def no_loop_def set_step_def added_def deleted_def named_mac_def Let_def command_texts)

text \<open>The calls of a start-up for the configuration \<open>cfg\<close>.\<close>

definition setup_call :: "np_config \<Rightarrow> call \<Rightarrow> bool" where
  "setup_call cfg c \<longleftrightarrow> mqtt_setup c \<or>
     c \<in> {Abort, Sigaction, Uci_alloc_context, Uci_unload, Uci_free_context} \<or> (\<exists>a. c = Getopt a) \<or>
     (\<exists>n. c = Uci_load n) \<or> (\<exists>i. c = Openlog i) \<or> (\<exists>b. c = Popen_write ''nft -f - 2>&1'' b) \<or>
     (\<exists>cmd. c = Popen_read cmd \<and> setup_command (str (nft_table cfg)) (str (nft_set cfg)) cmd)"

lemma setup_call_log: "is_log c \<Longrightarrow> setup_call cfg c"
  by (simp add: setup_call_def mqtt_setup_def)

lemma setup_call_simps [simp]:
  "setup_call cfg Malloc" "setup_call cfg Abort" "setup_call cfg Sigaction" "setup_call cfg Uci_alloc_context"
  "setup_call cfg Uci_unload" "setup_call cfg Uci_free_context" "setup_call cfg (Getopt a)"
  "setup_call cfg (Uci_load n)" "setup_call cfg (Openlog i)" "setup_call cfg (Popen_write ''nft -f - 2>&1'' b)"
  "setup_call cfg (Popen_read cmd) = setup_command (str (nft_table cfg)) (str (nft_set cfg)) cmd"
  by (simp_all add: setup_call_def mqtt_setup_def)

lemma tail_calls: "emits (setup_call cfg) (setup_tail E cfg)"
proof -
  have create: "emits (setup_call cfg) (np_mqtt_create E c cb)"
    for c and cb :: "(string \<Rightarrow> string \<Rightarrow> np_handler \<Rightarrow> np_handler np) option"
    by (rule emits_mono [OF emits_create]) (simp add: setup_call_def)
  have ensure: "emits (setup_call cfg) (np_nft_ensure E (str (nft_table cfg)) (str (nft_set cfg)))"
    unfolding np_nft_ensure_def flush_args_def [symmetric] rule_args_text [symmetric]
    by (intro emits_rules emits_run_nft) (simp_all add: setup_call_log setup_command_def)
  show ?thesis
    unfolding setup_tail_def np_leases_create_def
    by (intro emits_rules create ensure) (simp_all add: setup_call_log)
qed

lemma log_calls_setup:
  "\<exists>u. sy_trace (snd (run_state (setup_log fg c E) s)) = sy_trace s @ u \<and> list_all (setup_call cfg) u"
proof -
  have "list_all (setup_call cfg) (log_calls E lv msg s1)" for lv msg s1
    using run_np_log(2) [of E lv msg s1] by (auto simp: list_all_iff setup_call_log)
  then show ?thesis by (auto simp: setup_log_def np_log_init_def LOG_INFO_def run_np_log(1))
qed

lemma setup_calls:
  assumes "run_state (daemon_setup E argv) s = (Inr (m, h), s1)"
  shows "m = main_client E (nm_cfg m) \<and> main_handler (nm_cfg m) h \<and>
    (\<exists>u. sy_trace s1 = sy_trace s @ u \<and> list_all (setup_call (nm_cfg m)) u)"
proof -
  let ?s1 = "s\<lparr>sy_trace := sy_trace s @ [Getopt argv]\<rparr>"
  let ?opts = "read_options (hd (argv @ [[]])) (e_getopt E (sy_trace s @ [Getopt argv])) False"
  obtain o_res s2 where r1: "run_state ?opts ?s1 = (o_res, s2)" by force
  obtain fg where o_res: "o_res = Inr fg" using assms r1 by (cases o_res) (auto simp: daemon_setup_steps)
  obtain r s3 where r2: "run_state (np_config_load E) s2 = (r, s3)" by force
  obtain cfg where r: "r = Some (0, cfg)"
    using assms r1 r2 o_res by (cases r) (auto simp: daemon_setup_steps split: if_splits)
  obtain s4 where r3: "run_state (setup_log fg cfg E) s3 = ((), s4)" by (metis surj_pair old.unit.exhaust)
  have tail: "run_state (setup_tail E cfg) s4 = (Inr (m, h), s1)"
    using assms r1 r2 r3 o_res r by (simp add: daemon_setup_steps)
  note m = tail_ready [OF tail]
  then have cfg: "nm_cfg m = cfg" by simp
  obtain u1 where u1: "sy_trace s2 = sy_trace s @ Getopt argv # u1" "list_all (setup_call cfg) u1"
    using emits_trace [where m = ?opts and s = ?s1 and P = "setup_call cfg"] emits_read_options [OF setup_call_log] r1
    by fastforce
  have "emits (setup_call cfg) (np_config_load E)" by (rule emits_config_load) (simp_all add: setup_call_log)
  then obtain u2 where u2: "sy_trace s3 = sy_trace s2 @ u2" "list_all (setup_call cfg) u2"
    using emits_trace r2 by (metis snd_conv)
  obtain u3 where u3: "sy_trace s4 = sy_trace s3 @ u3" "list_all (setup_call cfg) u3"
    using log_calls_setup [of fg cfg E s3 cfg] r3 by auto
  obtain u4 where u4: "sy_trace s1 = sy_trace s4 @ u4" "list_all (setup_call cfg) u4"
    using emits_trace [OF tail_calls] tail by (metis snd_conv)
  have "sy_trace s1 = sy_trace s @ (Getopt argv # u1 @ u2 @ u3 @ u4)" by (simp add: u1(1) u2(1) u3(1) u4(1))
  moreover have "list_all (setup_call cfg) (Getopt argv # u1 @ u2 @ u3 @ u4)"
    by (simp add: u1(2) u2(2) u3(2) u4(2))
  ultimately show ?thesis unfolding cfg using m by blast
qed

lemma setup_call_quiet:
  assumes "setup_call cfg c"
  shows "quiet cfg c"
proof -
  have "mqtt_setup c \<Longrightarrow> quiet cfg c"
    by (auto simp: mqtt_setup_def quiet_log, auto simp: quiet_def no_loop_def set_step_def split: call.splits)
  with assms show ?thesis by (auto simp: setup_call_def setup_command_def setup_args_quiet)
qed

text \<open>
  An invariant of the process, by rule induction: a property \<open>J\<close> of the history and a property \<open>I\<close> of the
  handler that hold behind the start-up, survive what the process does of its own, and survive the rounds of
  the loop, hold in every phase.
\<close>

fun phase_sys :: "phase \<Rightarrow> sys" where
  "phase_sys (Looping h s) = s"
| "phase_sys (Draining n h s) = s"
| "phase_sys (Ended e s) = s"

fun phase_handler :: "phase \<Rightarrow> np_handler option" where
  "phase_handler (Looping h s) = Some h"
| "phase_handler (Draining n h s) = Some h"
| "phase_handler (Ended e s) = None"

definition own_call :: "'a np_mqtt_scheme \<Rightarrow> call \<Rightarrow> bool" where
  "own_call m c \<longleftrightarrow> is_log c \<or> c \<in> {Signal_window, Mosq_disconnect, Mosq_destroy, Mosq_lib_cleanup, Closelog} \<or>
     (\<exists>q. c = Mosq_publish (str (nm_status_topic m)) q 1 True) \<or> (\<exists>a b d. c = Mosq_connect_async a b d)"

lemma own_calls:
  "emits (own_call m) (run_connect E m)" "emits (own_call m) (goodbye E m)" "emits (own_call m) (daemon_teardown E m h)"
  unfolding run_connect_def goodbye_def daemon_teardown_def np_mqtt_destroy_def np_log_close_def Let_def
  by (intro emits_rules status.emits_pub; simp add: own_call_def)+

definition stable :: "np_handler np_client \<Rightarrow> (history \<Rightarrow> bool) \<Rightarrow> bool" where
  "stable m J \<longleftrightarrow> (\<forall>t u. J t \<longrightarrow> list_all (own_call m) u \<longrightarrow> J (t @ u))"

definition preserved :: "(np_handler \<Rightarrow> bool) \<Rightarrow> (history \<Rightarrow> bool) \<Rightarrow> (np_handler \<Rightarrow> np_handler np) \<Rightarrow> bool" where
  "preserved I J f \<longleftrightarrow> (\<forall>h s. I h \<longrightarrow> J (sy_trace s) \<longrightarrow>
     I (fst (run_state (f h) s)) \<and> J (sy_trace (snd (run_state (f h) s))))"

lemma stable_run: "stable m J \<Longrightarrow> J (sy_trace s) \<Longrightarrow> emits (own_call m) k \<Longrightarrow> J (sy_trace (snd (run_state k s)))"
  using emits_trace [of "own_call m" k s] by (auto simp: stable_def)

definition one_loop :: "env \<Rightarrow> np_handler np_client \<Rightarrow> np_handler \<Rightarrow> np_handler np" where
  "one_loop E m h = do { r \<leftarrow> mosq_loop E 100 m h; ret (snd r) }"

lemma step_invariant:
  assumes "process_step E m p q" "stable m J" "preserved I J (run_iteration E m)" "preserved I J (one_loop E m)"
    and "J (sy_trace (phase_sys p))" "pred_option I (phase_handler p)"
  shows "J (sy_trace (phase_sys q)) \<and> pred_option I (phase_handler q)"
proof -
  have read: "J (sy_trace (after_read s))" if "J (sy_trace s)" for s
    using that assms(2) by (auto simp: stable_def after_read_def own_call_def)
  show ?thesis
    using assms
  proof (induction rule: process_step.induct)
    case (serve s h h' s')
    then have "I h" "J (sy_trace (after_read s))" using read by simp_all
    with serve(2,4) show ?case by (metis fst_conv phase_handler.simps(1) phase_sys.simps(1) option.pred_inject(2) preserved_def snd_conv)
  next
    case (leave s s' h)
    then show ?case using stable_run [OF leave(3) read own_calls(2), of s E] by simp
  next
    case (drain_round h s rc h' s' n)
    then show ?case by (auto simp: preserved_def one_loop_def case_prod_beta) (metis fst_conv snd_conv)+
  next
    case (finish h s r s')
    then show ?case using stable_run [OF finish(2) _ own_calls(3), of s E h] by simp
  qed
qed

lemma process_invariant:
  assumes "reached E argv s p" "run_state (daemon_setup E argv) s = (Inr (m, h0), s0)"
    and "stable m J" "preserved I J (run_iteration E m)" "preserved I J (one_loop E m)"
    and "J (sy_trace s0)" "I h0"
  shows "J (sy_trace (phase_sys p)) \<and> pred_option I (phase_handler p)"
  using assms(1)
proof (induction rule: reached.induct)
  case (given_up e s1)
  with assms(2) show ?case by simp
next
  case (no_connection m' h s1 s2 r s3)
  have same: "m' = m" "s1 = s0" using assms(2) no_connection(1) by simp_all
  have "J (sy_trace s2)" using stable_run [OF assms(3,6) own_calls(1), of E] no_connection(2) by (simp add: same)
  with stable_run [OF assms(3) this own_calls(3), of E h] no_connection(3) show ?case by (simp add: same)
next
  case (connected m' h s1 s2)
  have same: "m' = m" "s1 = s0" "h = h0" using assms(2) connected(1) by simp_all
  from stable_run [OF assms(3,6) own_calls(1), of E] connected(2) assms(7) show ?case by (simp add: same)
next
  case (moved m' h s1 p q)
  have same: "m' = m" using assms(2) moved(1) by simp
  from moved(4) show ?case
    by (intro step_invariant [OF moved(3) [unfolded same] assms(3-5)]) simp_all
qed

text \<open>The two invariants: the history is in step with the set, and every call is an allowed one.\<close>

lemma own_call_quiet: "own_call m c \<Longrightarrow> quiet cfg c"
  by (auto simp: own_call_def quiet_log)

lemma reached_in_step:
  assumes r: "reached E argv s p" and su: "run_state (daemon_setup E argv) s = (Inr (m, h0), s0)"
    and w: "works E parse (nm_cfg m) S" and start: "in_step E parse (nm_cfg m) S (sy_trace s)"
  shows "in_step E parse (nm_cfg m) S (sy_trace (phase_sys p))"
proof -
  let ?I = "main_handler (nm_cfg m)" and ?J = "in_step E parse (nm_cfg m) S"
  note s0 = setup_calls [OF su]
  then have m: "main_client E (nm_cfg m) = m" by simp
  have "?J (sy_trace s0)" using s0 in_step_quiet [OF start] setup_call_quiet list.pred_mono_strong by metis
  moreover have "stable m ?J"
    unfolding stable_def by (blast intro: in_step_quiet list.pred_mono_strong own_call_quiet)
  moreover have "preserved ?I ?J (run_iteration E m)"
    unfolding preserved_def using iteration_in_step [OF w, unfolded m] by blast
  moreover have "preserved ?I ?J (one_loop E m)"
    unfolding preserved_def
  proof (intro allI impI)
    fix h and s :: sys
    assume h: "?I h" "?J (sy_trace s)"
    obtain rc h' s' where l: "run_state (mosq_loop E 100 m h) s = ((rc, h'), s')" by (metis surj_pair)
    from loop_in_step [OF w h, unfolded m, OF l]
    show "?I (fst (run_state (one_loop E m h) s)) \<and> ?J (sy_trace (snd (run_state (one_loop E m h) s)))"
      by (simp add: one_loop_def l)
  qed
  ultimately show ?thesis using process_invariant [OF r su, of ?J ?I] s0 by blast
qed

definition process_call :: "np_config \<Rightarrow> call \<Rightarrow> bool" where
  "process_call cfg c \<longleftrightarrow>
     list_all (program_command cfg) (shell_of c) \<and>
     list_all (\<lambda>x. own_topic (str (device_id cfg)) (fst x)) (message_of c) \<and>
     (\<forall>t q. c = Mosq_subscribe t q \<longrightarrow> t = cmd_filter (str (device_id cfg)))"

lemma daemon_process_call: "daemon_call cfg c \<Longrightarrow> process_call cfg c"
  by (auto simp: daemon_call_def process_call_def program_command_def list_all_iff)

lemma process_call_log: "is_log c \<Longrightarrow> process_call cfg c"
  by (rule daemon_process_call [OF daemon_call_log])

lemma process_call_setup:
  "setup_command (str (nft_table cfg)) (str (nft_set cfg)) cmd \<Longrightarrow> process_call cfg (Popen_read cmd)"
  by (simp add: process_call_def program_command_def)

lemma own_call_process:
  assumes "m = main_client E cfg" "own_call m c"
  shows "process_call cfg c"
proof -
  have "daemon_call cfg c"
    using assms by (auto simp: own_call_def daemon_call_log) (auto simp: daemon_call_def)
  then show ?thesis by (rule daemon_process_call)
qed

lemma setup_call_process:
  assumes "setup_call cfg c"
  shows "process_call cfg c"
proof -
  have "mqtt_setup c \<Longrightarrow> process_call cfg c"
    by (auto simp: mqtt_setup_def process_call_log, auto simp: process_call_def split: call.splits)
  with assms show ?thesis
    by (auto simp: setup_call_def process_call_setup)
      (auto simp: process_call_def program_command_def setup_command_def)
qed

lemma keeps_preserved:
  assumes "\<And>h. I h \<Longrightarrow> keeps I P (f h)"
  shows "preserved I (\<lambda>t. \<exists>u. t = t0 @ u \<and> list_all P u) f"
  unfolding preserved_def
proof (intro allI impI)
  fix h and s :: sys
  assume h: "I h" "\<exists>u. sy_trace s = t0 @ u \<and> list_all P u"
  then obtain u where u: "sy_trace s = t0 @ u" "list_all P u" by blast
  have k: "keeps I P (f h)" using assms h(1) .
  then obtain v where "sy_trace (snd (run_state (f h) s)) = sy_trace s @ v" "list_all P v"
    using emits_trace unfolding keeps_def by blast
  with u k show "I (fst (run_state (f h) s)) \<and> (\<exists>u. sy_trace (snd (run_state (f h) s)) = t0 @ u \<and> list_all P u)"
    by (auto simp: keeps_def)
qed

lemma keeps_weaken: "keeps I P k \<Longrightarrow> (\<And>c. P c \<Longrightarrow> Q c) \<Longrightarrow> keeps I Q k"
  by (auto simp: keeps_def intro: emits_mono)

lemma reached_confined:
  assumes r: "reached E argv s p" and su: "run_state (daemon_setup E argv) s = (Inr (m, h0), s0)"
  shows "(\<exists>t. sy_trace (phase_sys p) = sy_trace s @ t \<and> list_all (process_call (nm_cfg m)) t) \<and>
    pred_option (main_handler (nm_cfg m)) (phase_handler p)"
proof -
  let ?I = "main_handler (nm_cfg m)" and ?P = "process_call (nm_cfg m)"
  let ?J = "\<lambda>t. \<exists>u. t = sy_trace s @ u \<and> list_all ?P u"
  note s0 = setup_calls [OF su]
  then have m: "main_client E (nm_cfg m) = m" by simp
  have own: "list_all (own_call m) u \<Longrightarrow> list_all ?P u" for u
    using own_call_process [OF m [symmetric]] by (auto simp: list_all_iff)
  have "stable m ?J"
    unfolding stable_def
  proof (intro allI impI)
    fix t u
    assume "?J t" and u: "list_all (own_call m) u"
    then obtain v where "t = sy_trace s @ v" "list_all ?P v" by blast
    with own [OF u] show "?J (t @ u)" by (intro exI [of _ "v @ u"]) simp
  qed
  moreover have "preserved ?I ?J (run_iteration E m)"
  proof (rule keeps_preserved)
    fix h assume "?I h"
    then have "keeps ?I (daemon_call (nm_cfg m)) (run_iteration E (main_client E (nm_cfg m)) h)"
      by (rule running.keeps_run_iteration)
    then show "keeps ?I ?P (run_iteration E m h)"
      unfolding m by (rule keeps_weaken) (rule daemon_process_call)
  qed
  moreover have "preserved ?I ?J (one_loop E m)"
  proof (rule keeps_preserved)
    fix h assume "?I h"
    then have "keeps (\<lambda>r. ?I (snd r)) (daemon_call (nm_cfg m)) (mosq_loop E 100 (main_client E (nm_cfg m)) h)"
      by (rule running.keeps_mosq_loop)
    then have "keeps ?I (daemon_call (nm_cfg m)) (one_loop E m h)"
      unfolding m one_loop_def by (rule keeps_bind) (rule keeps_return)
    then show "keeps ?I ?P (one_loop E m h)"
      by (rule keeps_weaken) (rule daemon_process_call)
  qed
  moreover have "?J (sy_trace s0)"
    using s0 setup_call_process list.pred_mono_strong by blast
  ultimately show ?thesis using process_invariant [OF r su, of ?J ?I] s0 by blast
qed


section \<open>Properties\<close>

text \<open>
  C17: the transition system is the program. The ends that the process can reach are exactly the result of
  \<open>np_main\<close>, and as long as it has not ended it has exactly one next step.
\<close>

theorem process_is_main:
  "(reached E argv s (Ended e s') \<longleftrightarrow> np_main E argv s = Some (e, s')) \<and>
   (\<exists>!q. process_step E m (Looping h s1) q) \<and> (\<exists>!q. process_step E m (Draining n h s1) q)"
proof (intro conjI iffI)
  assume r: "reached E argv s (Ended e s')"
  from reached_outcome [OF r] show "np_main E argv s = Some (e, s')"
    by (auto simp: np_main_def)
next
  show "reached E argv s (Ended e s')" if "np_main E argv s = Some (e, s')"
    using that by (rule main_reached)
  show "\<exists>!q. process_step E m (Looping h s1) q" "\<exists>!q. process_step E m (Draining n h s1) q"
    using step_progress [of "Looping h s1"] step_progress [of "Draining n h s1"] step_deterministic by blast+
qed

text \<open>
  C1: the life of the process refines the abstract set. In a world that works, in every phase the process
  reaches, its end included, the set in the kernel is what the commands among all the messages delivered so far
  make of the set it was started with, in their order: start-up, the lease polls, the connection and its
  loss, the draining and the shutdown leave it alone, and no command is lost or made up.
\<close>

theorem session_refines_set:
  assumes "reached E argv s p" "run_state (daemon_setup E argv) s = (Inr (m, h), s1)"
    and "works E parse (nm_cfg m) S" "sy_trace s = []"
  shows "cfg_set (nm_cfg m) S (sy_trace (phase_sys p))
      = session E parse (str (device_id (nm_cfg m))) (received E (sy_trace (phase_sys p))) S"
proof -
  have "in_step E parse (nm_cfg m) S (sy_trace s)"
    unfolding assms(4) by (simp add: in_step_def received_def)
  from reached_in_step [OF assms(1-3) this] show ?thesis by (simp add: in_step_def)
qed

text \<open>A broker that delivers a command to block an address in every round of the loop.\<close>

definition block_message :: mosq_event where
  "block_message = Ev_message (Some (Some ''netparent/router-1/cmd/block'', ''{...}''))"

definition busy :: env where
  "busy = (working ''inet netparent'' ''blocked_macs'' status_request)\<lparr>e_loop := (\<lambda>_. ([block_message], 0))\<rparr>"

lemma easy_busy: "easy_start busy"
  by (simp add: easy_start_def busy_def working_def) (simp add: calm_def)

lemma busy_works: "works busy (\<lambda>_. Some status_request) default_config {}"
proof -
  have fit: "names_fit ''inet netparent'' ''blocked_macs''" by (simp add: names_fit_def)
  from working_kernel [OF fit, of status_request] have "nft_kernel busy ''inet netparent'' ''blocked_macs'' {}"
    by (simp add: nft_kernel_def listing_def busy_def)
  then show ?thesis by (simp add: works_def fit) (simp add: busy_def working_def calm_def)
qed

lemma busy_received:
  "set (received busy t) \<subseteq> {block_message} \<and> (Mosq_loop n \<in> set t \<longrightarrow> received busy t \<noteq> [])"
proof (induction t rule: rev_induct)
  case Nil
  then show ?case by (simp add: received_def)
next
  case (snoc c t)
  then show ?case by (auto simp: received_snoc loop_events_def busy_def split: call.splits)
qed

lemma busy_session:
  "set evs \<subseteq> {block_message} \<Longrightarrow> session busy (\<lambda>_. Some status_request) ''router-1'' evs A =
     (if evs = [] then A else insert ''aa:bb:cc:dd:ee:ff'' A)"
proof (induction evs arbitrary: A)
  case (Cons ev evs)
  have n: "np_mac_normalize ''AA-BB-CC-DD-EE-FF'' = Some ''aa:bb:cc:dd:ee:ff''" by code_simp
  have "mac_of busy status_request = Some ''AA-BB-CC-DD-EE-FF''"
    by (simp add: mac_of_def busy_def working_def status_request_def)
  then have "\<exists>r. event_command busy (\<lambda>_. Some status_request) ''router-1'' block_message
      = Some (''block'', Some ''AA-BB-CC-DD-EE-FF'', r)"
    by (simp add: event_command_def block_message_def message_command_def sample_topic)
  then have "session busy (\<lambda>_. Some status_request) ''router-1'' [block_message] A = insert ''aa:bb:cc:dd:ee:ff'' A" for A
    by (auto simp: session_def List.map_filter_def abstract_commands_def abstract_set_def n)
  with Cons session_append [of busy "\<lambda>_. Some status_request" "''router-1''" "[ev]" evs A] show ?case by auto
qed simp

lemma busy_run:
  obtains m h0 s1 h s where "run_state (daemon_setup busy [''netparent'']) sys_start = (Inr (m, h0), s1)"
    "nm_cfg m = default_config" "reached busy [''netparent''] sys_start (Draining 9 h s)"
    "Mosq_loop 100 \<in> set (sy_trace s)"
proof -
  obtain m h s1 where r: "run_state (daemon_setup busy [''netparent'']) sys_start = (Inr (m, h), s1)"
    and m: "nm_cfg m = default_config" by (rule easy_setup [OF easy_busy])
  obtain ok s2 where c: "run_state (run_connect busy m) s1 = (ok, s2)" by force
  moreover have "e_mosq busy t = 0" for t using easy_busy by (simp add: easy_start_def)
  ultimately have "run_state (run_connect busy m) s1 = (True, s2)" by (auto simp: run_connect_def)
  note start = connected [OF r this]
  obtain s3 where g: "run_state (goodbye busy m) (after_read s2) = ((), s3)" by (metis surj_pair old.unit.exhaust)
  have "signalled busy s2" by (simp add: signalled_def busy_def working_def)
  note stop = moved [OF r start leave [OF this g]]
  obtain rc h' s4 where d: "run_state (mosq_loop busy 100 m h) s3 = ((rc, h'), s4)" by (metis surj_pair)
  have "reached busy [''netparent''] sys_start (Draining 9 h' s4)"
    using moved [OF r stop, of "Draining 9 h' s4"] drain_round [OF d, of 9] by simp
  moreover have "Mosq_loop 100 \<in> set (sy_trace s4)"
  proof -
    let ?s = "s3\<lparr>sy_trace := sy_trace s3 @ [Mosq_loop 100]\<rparr>"
    let ?f = "fold_np (dispatch busy m) (fst (e_loop busy (sy_trace ?s))) h"
    have "emits (\<lambda>_. True) ?f"
      using setup_ready [OF r] by (metis emits_fold_np emits_dispatch client_calls_main)
    then obtain t where "sy_trace (snd (run_state ?f ?s)) = sy_trace ?s @ t" using emits_trace by blast
    moreover have "snd (run_state ?f ?s) = s4" using d by (simp add: mosq_loop_def case_prod_beta)
    ultimately show ?thesis by simp
  qed
  ultimately show thesis using that [OF r m] by blast
qed

theorem session_refines_set_witness:
  "\<exists>h s. reached busy [''netparent''] sys_start (Draining 9 h s) \<and>
     cfg_set default_config {} (sy_trace s) = {''aa:bb:cc:dd:ee:ff''}"
proof -
  obtain m h0 s1 h s where r: "run_state (daemon_setup busy [''netparent'']) sys_start = (Inr (m, h0), s1)"
    and m: "nm_cfg m = default_config" and p: "reached busy [''netparent''] sys_start (Draining 9 h s)"
    and l: "Mosq_loop 100 \<in> set (sy_trace s)" by (rule busy_run)
  have w: "works busy (\<lambda>_. Some status_request) (nm_cfg m) {}" using busy_works m by simp
  have e: "sy_trace sys_start = []" by (simp add: sys_start_def)
  from session_refines_set [OF p r w e] busy_received [of "sy_trace s" 100] l p show ?thesis
    by (auto simp: m busy_session)
qed

text \<open>
  C3: the process is confined. In every phase it reaches, whatever broker, files and shell have answered, every
  command line since its start was one of the fixed templates of the set-up or a safe nft command, every
  message went to one of the device's own topics, and the only subscription was to the device's command
  filter; and the handler and the watcher satisfy their invariants.
\<close>

theorem process_confined:
  assumes "reached E argv s p" "run_state (daemon_setup E argv) s = (Inr (m, h), s1)"
  shows "(\<exists>t. sy_trace (phase_sys p) = sy_trace s @ t \<and> list_all (process_call (nm_cfg m)) t) \<and>
    pred_option (main_handler (nm_cfg m)) (phase_handler p)"
  by (rule reached_confined [OF assms])

theorem process_confined_witness:
  "\<exists>h s. reached busy [''netparent''] sys_start (Draining 9 h s) \<and>
     list_all (process_call default_config) (sy_trace s) \<and> main_handler default_config h"
proof -
  obtain m h0 s1 h s where r: "run_state (daemon_setup busy [''netparent'']) sys_start = (Inr (m, h0), s1)"
    and m: "nm_cfg m = default_config" and p: "reached busy [''netparent''] sys_start (Draining 9 h s)"
    by (rule busy_run)
  from process_confined [OF p r] p show ?thesis by (auto simp: m sys_start_def)
qed

end
