(* ===== verification/Spec2Isabelle.thy ===== *)
theory Spec2Isabelle
  imports NP_Prelude Effects Log Config Mac Nft Mqtt Leases Handler Daemon Session
begin

text \<open>
  netparent, the OpenWRT daemon under \<open>src/src/\<close> that blocks devices by their MAC address on commands
  received over MQTT and publishes the devices it sees.

  \<^bold>\<open>The program.\<close> \<open>main.c\<close> reads the command line and the UCI configuration (\<open>config.c\<close>), opens the
  log (\<open>log.c\<close>), installs the nftables set and its two drop rules (\<open>nft.c\<close>), creates the MQTT
  client (\<open>mqtt.c\<close>) and the lease watcher (\<open>leases.c\<close>), and runs the network loop. The loop hands every
  message on a command topic to \<open>handler.c\<close>, which blocks, unblocks, queries or lists addresses through
  \<open>nft.c\<close>, answers over MQTT and lets the watcher republish; every round ends with a poll of the watcher,
  which rebuilds its table of devices from the dnsmasq lease file and the set in the kernel and publishes the
  differences and a snapshot. SIGINT and SIGTERM set the flag that ends the loop.

  \<^bold>\<open>The world.\<close> Theory \<open>Effects\<close>. Whatever is not in the C sources is a field of the record \<open>env\<close>,
  a function of the history of calls: the shell and nft, files, the clock, \<open>malloc\<close>, libuci, cJSON,
  libmosquitto, signals. The state \<open>sys\<close> holds that history (\<open>sy_trace\<close>) and the two globals of
  \<open>log.c\<close>. A C function that only computes is a HOL function; one with effects is a computation of the
  library's state monad (\<open>'a np\<close>), written statement by statement in the order of the source. Nothing is assumed of
  \<open>env\<close>; a property that needs documented behaviour of the outside names it: \<open>nft_kernel\<close> (a kernel
  that keeps the set), \<open>prints_with\<close> (a printer that succeeds), \<open>works\<close> (these with memory and a
  parser that depends on the text alone). \<open>emits P m\<close> says that a computation makes calls in \<open>P\<close> only; its
  rules (\<open>emits_rules\<close>) follow the syntax and carry all confinement proofs. \<open>owns E m s x\<close> says that
  \<open>m\<close> yields \<open>x\<close> or is killed by \<open>abort\<close> on a failed allocation.

  \<^bold>\<open>The theories\<close>, each with its definitions first and its properties last:
  \<^item> \<open>NP_Prelude\<close>: bytes, C strings, \<open>strcmp\<close>, \<open>snprintf\<close>, \<open>strtol\<close>, \<open>fgets\<close>, integer widths.
  \<^item> \<open>Log\<close>: levels (a linear order), filter, syslog and stderr back ends.
  \<^item> \<open>Config\<close>: \<open>np_config\<close>, the typed readers, \<open>xstrdup\<close>, \<open>set_str\<close>, the defaults and
    \<open>np_config_load\<close>. The section Reference gives the loaded configuration as a function of the data.
  \<^item> \<open>Mac\<close>: \<open>np_mac_normalize\<close> with its counters and buffers, an abstract loop on groups that it
    refines, and a reference by splitting. The locale \<open>mac_interface\<close> is what others use of it.
  \<^item> \<open>Nft\<close>: \<open>run_nft\<close>, set-up, block, unblock, query, the listing buffer and its scan.
  \<^item> \<open>Mqtt\<close>: creation, callbacks, publishers, the network loop (\<open>partial_function\<close>, as it may run for
    ever), shutdown. The locale \<open>publisher\<close> is the contract of the publishers.
  \<^item> \<open>Leases\<close>: lease lines, the table (\<open>rebuild\<close>), the merge walk over the last and the new table, events,
    snapshot, polling. The locale \<open>device_store\<close> relates the array to a bounded map.
  \<^item> \<open>Handler\<close>: \<open>parse_action\<close>, \<open>reply\<close>, every command, \<open>np_handle_message\<close>, and the set in
    the kernel as the commands so far define it (\<open>set_after\<close>, \<open>abstract_set\<close>).
  \<^item> \<open>Daemon\<close>: \<open>main\<close> (\<open>np_main\<close>), start-up, teardown, and the confinement of the running daemon
    from the contract of its callbacks (locale \<open>confined_client\<close>).
  \<^item> \<open>Session\<close>: the process as a step relation over phases, its equivalence with \<open>np_main\<close>, its invariants
    by rule induction (\<open>process_invariant\<close>), and the refinement of the abstract set by the whole life of the process.

  \<^bold>\<open>What is shown.\<close> The commands the broker delivered, and nothing else, decide the set of blocked addresses,
  in every reachable phase (\<open>session_refines_set\<close>), and each is answered exactly once, as the abstract set says
  (\<open>message_end_to_end\<close>), or not at all when it has no request id (\<open>silent_without_request_id\<close>). The daemon reaches its loop only with a complete configuration and both rules in
  place (\<open>daemon_ready\<close>), stays within its own commands and topics (\<open>process_confined\<close>,
  \<open>message_shell_safe\<close>) and ends exactly on a signal (\<open>run_loop_returns_iff_signalled\<close>,
  \<open>main_outcome\<close>). The tables are bounded, well formed and sorted, hold exactly what file and set name, and the events say
  exactly what changed (\<open>leases_invariant\<close>, \<open>rebuild_contents\<close>, \<open>diff_walk_complete\<close>) and are enough for a
  subscriber to follow the table (\<open>events_replay\<close>). The normaliser is memory safe and equal to its reference. Listings in the form
  of \<open>nft -j\<close>, lease files, snapshots and UCI integers are read back as written. Failures of every component have their stated outcome.

  \<^bold>\<open>Bounds.\<close> The buffers are those of the code: 768 and 1024 bytes for a command, 256 for queries, 255 for
  a line of output, 4096 for a listing, 128 and 160 for topics, 64, 46 and 18 for the fields of a device, 256
  devices. \<open>long\<close> has 64 bits and \<open>sscanf\<close> and \<open>strtol\<close> saturate, as glibc and musl do on LP64;
  \<open>int\<close> has 32. No definition needs fuel: all recursion is structural, on a measure, or the network loop.

  \<^bold>\<open>Conventions.\<close>
  \<^item> A pointer is an \<open>option\<close>, its object a value; the handler owns the state of the watcher, which the tick shares
    with it. Freeing memory has no effect in the model.
  \<^item> libmosquitto makes its callbacks within \<open>mosquitto_loop\<close>, in order. A signal handler only sets the
    flag, which only the head of the loop reads, so delivery is decided there.
  \<^item> \<open>getopt\<close> delivers the list of its results. The two \<open>sigaction\<close> calls and \<open>signal\<close> are one
    call. \<open>qsort\<close> on distinct keys is \<open>sort_key\<close>. The allocations inside cJSON succeed except where the
    code tests for them. The formats use \<open>%s\<close> and \<open>%d\<close> only, so the length \<open>vsnprintf\<close> returns to \<open>fmtstr\<close> is
    negative beyond \<open>INT_MAX\<close> bytes only; that path is not modelled.
  \<^item> The four callback setters are recorded as calls; \<open>dispatch\<close> calls the functions the code registers with them.
  \<^item> A command counts for \<open>set_after\<close> once issued; that nft carried it out is part of \<open>nft_kernel\<close>.

  \<^bold>\<open>Not modelled.\<close> The web application under \<open>web/\<close> is a separate program in Go, with its own database
  and HTTP server; the packaging, the Makefiles and the init script are no program code. Use after free is not
  expressible here, as objects are values.
\<close>

end
